theory Spec2Isabelle
  imports Complex_Main "HOL-Library.Sublist"
begin

section \<open>Run simulator (SimulationEngine.simulateRun)\<close>

text \<open>
  A single attempt of the probabilistic counter. The JavaScript numbers that count
  (\<open>counter\<close>, \<open>maxValue\<close>) are integers; the iteration counter and the safety limit
  are naturals; probabilities are reals. The calls of \<open>Math.random()\<close> are an injected
  source \<open>random\<close>: the loop draws exactly once per iteration, so the draw of iteration
  \<open>i\<close> is \<open>random i\<close>. The cooperative yields and the progress callback inside the
  loop touch no variable of the run and are left out, as is the wall-clock field
  \<open>timeMs\<close>. A target that is not a number (\<open>NaN\<close>, as \<open>parseInt\<close> gives for an
  empty input field) has no counterpart among the integers; with it both comparisons of
  the code fail, as they do for a negative target.
\<close>

datatype termination_reason = Success | Iteration_limit | Unknown

record attempt_result =
  path :: "int list"
  completed :: bool
  iterations :: nat
  hitIterationLimit :: bool
  reason :: termination_reason

definition defaultIterationSafetyLimit :: nat where
  "defaultIterationSafetyLimit = 10000000"

text \<open>The \<open>while\<close> loop of \<open>simulateRun\<close>, on the triple (path, counter, iterations).\<close>

function simulateRun_loop ::
  "real \<Rightarrow> real \<Rightarrow> int \<Rightarrow> nat \<Rightarrow> (nat \<Rightarrow> real) \<Rightarrow> int list \<Rightarrow> int \<Rightarrow> nat
     \<Rightarrow> int list \<times> int \<times> nat" where
  "simulateRun_loop initialProb decayFactor maxValue iterationSafetyLimit random pth counter iters =
     (if counter < maxValue \<and> iters < iterationSafetyLimit then
        (let pUp = initialProb * decayFactor ^ nat counter;
             cappedPUp = max 0 (min 1 pUp)
         in simulateRun_loop initialProb decayFactor maxValue iterationSafetyLimit random
              (pth @ [counter])
              (if random iters < cappedPUp then counter + 1 else max 0 (counter - 1))
              (iters + 1))
      else (pth, counter, iters))"
  by pat_completeness auto
termination
  by (relation "measure (\<lambda>(ip, df, mv, lim, rnd, p, c, i). lim - i)") auto

declare simulateRun_loop.simps [simp del]

definition simulateRun ::
  "real \<Rightarrow> real \<Rightarrow> int \<Rightarrow> nat \<Rightarrow> (nat \<Rightarrow> real) \<Rightarrow> attempt_result" where
  "simulateRun initialProb decayFactor maxValue iterationSafetyLimit random =
     (case simulateRun_loop initialProb decayFactor maxValue iterationSafetyLimit random [] 0 0 of
        (pth, counter, iters) \<Rightarrow>
          (let hit = (iters \<ge> iterationSafetyLimit);
               compl = (counter = maxValue)
           in \<lparr> path = (if counter = maxValue then pth @ [maxValue] else pth),
                completed = compl,
                iterations = iters,
                hitIterationLimit = hit,
                reason = (if compl then Success
                          else if hit then Iteration_limit else Unknown) \<rparr>))"

text \<open>One transition of the walk as it shows in a path: up, down, or the self-loop at the floor.\<close>

definition valid_step :: "int \<Rightarrow> int \<Rightarrow> bool" where
  "valid_step a b \<longleftrightarrow> b - a = 1 \<or> b - a = - 1 \<or> (b - a = 0 \<and> a = 0)"

text \<open>
  The invariant of the loop, on the path recorded so far and the current counter: the
  counter stays between the floor and the target, the path followed by the counter is a
  walk from 0 by valid steps, and every recorded value is below the target.
\<close>

definition loop_inv :: "int \<Rightarrow> int list \<Rightarrow> int \<Rightarrow> bool" where
  "loop_inv mv p c \<longleftrightarrow>
     0 \<le> c \<and> c \<le> max 0 mv \<and> successively valid_step (p @ [c]) \<and> hd (p @ [c]) = 0
     \<and> (\<forall>v \<in> set p. v < mv)"

section \<open>Batch scheduler (SimulationEngine.runMultipleSimulations)\<close>

text \<open>
  The batch loop reads three things from outside: the flag \<open>this.shouldStop\<close> (set by
  \<open>stop()\<close> while the loop is suspended), the clock \<open>performance.now()\<close>, and the random
  draws of each attempt. One \<open>tick\<close> holds what one pass through the loop observes: the
  flag as the loop condition reads it, the elapsed time computed at the top of the body, and
  the draws of the attempt. The loop consumes a finite trace of ticks; when the trace ends
  while the loop would still go on, the model has no answer (\<open>None\<close>).
  The messages of \<open>console.warn\<close>, \<open>console.error\<close> and of the time-limit
  \<open>console.log\<close> that the time checks print are collected; the informational
  \<open>console.log\<close> lines, the progress callback, the yields to the browser, the unused
  \<open>singleRunTimeLimit\<close> and the averages of the result object are left out.
\<close>

datatype console_event = Log_hit_time_limit | Warn_unlimited_running | Error_safety_stop

datatype phase = Initial | Extended | Unlimited

record tick =
  tick_stop :: bool
  tick_elapsed :: real
  tick_random :: "nat \<Rightarrow> real"

record environment =
  ticks :: "tick list"
  end_elapsed :: real
  end_stop :: bool

record batch_result =
  completedRuns :: "int list list"
  allAttempts :: "attempt_result list"
  failedRuns :: "attempt_result list"
  desiredSuccesses :: nat
  actualSuccesses :: nat
  totalAttempts :: nat
  parameterEfficiency :: real
  totalTimeMs :: real
  totalSimulationTimeMs :: real
  reachedDesiredCount :: bool
  hitTimeLimit :: bool
  wasStopped :: bool
  hasAnyData :: bool
  timeoutPhase :: phase

record batch_state =
  s_allAttempts :: "attempt_result list"
  s_completedRuns :: "int list list"
  s_failedRuns :: "attempt_result list"
  s_totalAttempts :: nat
  s_successfulRuns :: nat
  s_console :: "console_event list"

definition MAX_SAFE_INTEGER :: nat where
  "MAX_SAFE_INTEGER = 9007199254740991"

text \<open>JavaScript truthiness of \<open>totalTimeLimit\<close>: \<open>null\<close> and \<open>0\<close> are falsy.\<close>

definition truthy :: "real option \<Rightarrow> bool" where
  "truthy l = (case l of None \<Rightarrow> False | Some v \<Rightarrow> v \<noteq> 0)"

text \<open>
  The two checks at the top of the loop body: the events they print and whether they
  \<open>break\<close> out of the loop.
\<close>

definition time_checks :: "real option \<Rightarrow> real \<Rightarrow> console_event list \<times> bool" where
  "time_checks totalTimeLimit el =
     (if truthy totalTimeLimit \<and> el > the totalTimeLimit then ([Log_hit_time_limit], True)
      else if \<not> truthy totalTimeLimit \<and> el > 60000 then
        (if el > 120000 then
           (if el > 300000 then ([Warn_unlimited_running, Error_safety_stop], True)
            else ([Warn_unlimited_running], False))
         else ([], False))
      else ([], False))"

text \<open>One attempt and its bookkeeping: the part of the loop body after the time checks.\<close>

definition record_attempt :: "attempt_result \<Rightarrow> batch_state \<Rightarrow> batch_state" where
  "record_attempt result s =
     (let s1 = s\<lparr> s_totalAttempts := s_totalAttempts s + 1,
                   s_allAttempts := s_allAttempts s @ [result] \<rparr>
      in if completed result
         then s1\<lparr> s_completedRuns := s_completedRuns s1 @ [path result],
                  s_successfulRuns := s_successfulRuns s1 + 1 \<rparr>
         else s1\<lparr> s_failedRuns := s_failedRuns s1 @ [result] \<rparr>)"

fun batch_loop ::
  "nat \<Rightarrow> real \<Rightarrow> real \<Rightarrow> int \<Rightarrow> real option \<Rightarrow> tick list \<Rightarrow> batch_state
     \<Rightarrow> batch_state option" where
  "batch_loop numRuns initialProb decayFactor maxValue totalTimeLimit [] s =
     (if s_successfulRuns s < numRuns then None else Some s)"
| "batch_loop numRuns initialProb decayFactor maxValue totalTimeLimit (t # ts) s =
     (if s_successfulRuns s < numRuns \<and> \<not> tick_stop t then
        (case time_checks totalTimeLimit (tick_elapsed t) of
           (events, brk) \<Rightarrow>
             (let s1 = s\<lparr> s_console := s_console s @ events \<rparr> in
              if brk then Some s1
              else
                (let iterationLimit =
                       (if totalTimeLimit = None then MAX_SAFE_INTEGER
                        else defaultIterationSafetyLimit);
                     result = simulateRun initialProb decayFactor maxValue iterationLimit
                                (tick_random t)
                 in batch_loop numRuns initialProb decayFactor maxValue totalTimeLimit ts
                      (record_attempt result s1))))
      else Some s)"

definition initial_state :: "batch_result option \<Rightarrow> batch_state" where
  "initial_state existingResults =
     (case existingResults of
        None \<Rightarrow> \<lparr> s_allAttempts = [], s_completedRuns = [], s_failedRuns = [],
                  s_totalAttempts = 0, s_successfulRuns = 0, s_console = [] \<rparr>
      | Some ex \<Rightarrow> \<lparr> s_allAttempts = allAttempts ex, s_completedRuns = completedRuns ex,
                     s_failedRuns = failedRuns ex, s_totalAttempts = totalAttempts ex,
                     s_successfulRuns = actualSuccesses ex, s_console = [] \<rparr>)"

definition previousTimeMs :: "batch_result option \<Rightarrow> real" where
  "previousTimeMs existingResults =
     (case existingResults of
        None \<Rightarrow> 0
      | Some ex \<Rightarrow> (if totalSimulationTimeMs ex \<noteq> 0 then totalSimulationTimeMs ex
                    else totalTimeMs ex))"

definition runMultipleSimulations ::
  "nat \<Rightarrow> real \<Rightarrow> real \<Rightarrow> int \<Rightarrow> real option \<Rightarrow> batch_result option \<Rightarrow> environment
     \<Rightarrow> (batch_result \<times> console_event list) option" where
  "runMultipleSimulations numRuns initialProb decayFactor maxValue totalTimeLimit
       existingResults env =
     (case batch_loop numRuns initialProb decayFactor maxValue totalTimeLimit (ticks env)
             (initial_state existingResults) of
        None \<Rightarrow> None
      | Some s \<Rightarrow>
          (let total = previousTimeMs existingResults + end_elapsed env;
               efficiency = (if s_totalAttempts s > 0
                             then real (s_successfulRuns s) / real (s_totalAttempts s) * 100
                             else 0)
           in Some (\<lparr> completedRuns = s_completedRuns s,
                       allAttempts = s_allAttempts s,
                       failedRuns = s_failedRuns s,
                       desiredSuccesses = numRuns,
                       actualSuccesses = s_successfulRuns s,
                       totalAttempts = s_totalAttempts s,
                       parameterEfficiency = efficiency,
                       totalTimeMs = total,
                       totalSimulationTimeMs = total,
                       reachedDesiredCount = (s_successfulRuns s = numRuns),
                       hitTimeLimit = (truthy totalTimeLimit \<and> total \<ge> the totalTimeLimit),
                       wasStopped = end_stop env,
                       hasAnyData = (s_successfulRuns s > 0),
                       timeoutPhase = (if totalTimeLimit = Some 2000 then Initial
                                       else if totalTimeLimit = Some 10000 then Extended
                                       else Unlimited) \<rparr>,
                    s_console s)))"

text \<open>
  A later loop state extends an earlier one: the counters have not decreased and the
  three lists have only grown at the end.
\<close>

definition extends :: "batch_state \<Rightarrow> batch_state \<Rightarrow> bool" where
  "extends s s' \<longleftrightarrow>
     s_totalAttempts s \<le> s_totalAttempts s' \<and> s_successfulRuns s \<le> s_successfulRuns s'
     \<and> prefix (s_completedRuns s) (s_completedRuns s')
     \<and> prefix (s_failedRuns s) (s_failedRuns s')
     \<and> prefix (s_allAttempts s) (s_allAttempts s')"

section \<open>Density aggregation (VisualizationEngine.createHeatmap)\<close>

text \<open>
  A grid is a list of rows, indexed \<open>[counterValue][timeBin]\<close>. Reading a row that does
  not exist (\<open>binCounts[value]\<close> with \<open>value\<close> outside the grid) gives
  \<open>undefined\<close> in JavaScript, and indexing that throws a \<open>TypeError\<close>;
  \<open>Array(n)\<close> with a negative \<open>n\<close> throws a \<open>RangeError\<close>. Both are results of
  the model. Run values are integers, as the simulator produces them.

  The time bin is \<open>Math.floor((index * gridWidth) / maxLength)\<close>. The product is an exact
  integer far below \<open>2^53\<close> for every array JavaScript can hold, and the floor of the
  correctly rounded quotient of two such integers is their integer quotient, so the bin is
  \<open>index * gridWidth div maxLength\<close>. With \<open>maxLength = 0\<close> the quotient is
  \<open>NaN\<close> or \<open>Infinity\<close> and the test \<open>x < gridWidth\<close> fails: there is no bin.
\<close>

datatype js_error = TypeError | RangeError

type_synonym grid = "nat list list"

definition zero_grid :: "nat \<Rightarrow> nat \<Rightarrow> grid" where
  "zero_grid h w = replicate h (replicate w 0)"

definition add_cell :: "nat \<Rightarrow> nat \<Rightarrow> nat \<Rightarrow> grid \<Rightarrow> grid" where
  "add_cell y x n g = g[y := (g ! y)[x := g ! y ! x + n]]"

definition time_bin :: "nat \<Rightarrow> nat \<Rightarrow> nat \<Rightarrow> nat option" where
  "time_bin index w ml =
     (if ml = 0 then None
      else (let x = index * w div ml in if x < w then Some x else None))"

text \<open>\<open>forEach\<close> with a callback that may throw: the first exception ends the iteration.\<close>

fun forEach :: "('a \<Rightarrow> 's \<Rightarrow> js_error + 's) \<Rightarrow> 'a list \<Rightarrow> 's \<Rightarrow> js_error + 's" where
  "forEach f [] s = Inr s"
| "forEach f (a # as) s = (case f a s of Inl e \<Rightarrow> Inl e | Inr s' \<Rightarrow> forEach f as s')"

subsection \<open>Full-trace mode\<close>

text \<open>The callback of \<open>run.forEach\<close> in \<open>_calculateFullDensity\<close>.\<close>

definition full_visit :: "nat \<Rightarrow> nat \<Rightarrow> nat \<Rightarrow> nat \<times> int \<Rightarrow> grid \<Rightarrow> js_error + grid" where
  "full_visit ml w h iv binCounts =
     (case iv of (index, v) \<Rightarrow>
        (case time_bin index w ml of
           None \<Rightarrow> Inr binCounts
         | Some x \<Rightarrow>
             (if 0 \<le> v \<and> v < int h then Inr (add_cell (nat v) x 1 binCounts)
              else Inl TypeError)))"

text \<open>
  The two nested \<open>for\<close> loops that fold the bins of one run into the densities: every
  cell of the \<open>h \<times> w\<close> grids is visited once and updated from its own old value.
\<close>

definition merge_bins :: "nat \<Rightarrow> nat \<Rightarrow> grid \<Rightarrow> grid \<times> grid \<Rightarrow> grid \<times> grid" where
  "merge_bins w h binCounts dens =
     (case dens of (vert, horiz) \<Rightarrow>
        (map (\<lambda>y. map (\<lambda>x. if binCounts ! y ! x > 0 then vert ! y ! x + 1
                             else vert ! y ! x) [0..<w]) [0..<h],
         map (\<lambda>y. map (\<lambda>x. if binCounts ! y ! x > 0 then horiz ! y ! x + binCounts ! y ! x
                             else horiz ! y ! x) [0..<w]) [0..<h]))"

definition full_run :: "nat \<Rightarrow> nat \<Rightarrow> nat \<Rightarrow> int list \<Rightarrow> grid \<times> grid \<Rightarrow> js_error + grid \<times> grid" where
  "full_run ml w h run dens =
     (case forEach (full_visit ml w h) (enumerate 0 run) (zero_grid h w) of
        Inl e \<Rightarrow> Inl e
      | Inr binCounts \<Rightarrow> Inr (merge_bins w h binCounts dens))"

definition calculateFullDensity ::
  "int list list \<Rightarrow> grid \<Rightarrow> grid \<Rightarrow> nat \<Rightarrow> nat \<Rightarrow> nat \<Rightarrow> js_error + grid \<times> grid" where
  "calculateFullDensity runs vert horiz ml w h = forEach (full_run ml w h) runs (vert, horiz)"

subsection \<open>Peak-trajectory mode\<close>

text \<open>The callback of \<open>run.forEach\<close> in \<open>_calculatePeakDensity\<close>; it cannot throw.\<close>

definition peak_visit :: "nat \<Rightarrow> nat \<Rightarrow> nat \<times> int \<Rightarrow> int list \<times> nat list \<Rightarrow> int list \<times> nat list" where
  "peak_visit ml w iv peaks =
     (case iv of (index, v) \<Rightarrow>
        (case peaks of (peakValues, peakCounts) \<Rightarrow>
           (case time_bin index w ml of
              None \<Rightarrow> (peakValues, peakCounts)
            | Some x \<Rightarrow> (peakValues[x := max (peakValues ! x) v],
                         peakCounts[x := peakCounts ! x + 1]))))"

text \<open>The callback of \<open>peakValues.forEach\<close>.\<close>

definition peak_mark :: "nat \<Rightarrow> nat list \<Rightarrow> nat \<times> int \<Rightarrow> grid \<times> grid \<Rightarrow> js_error + grid \<times> grid" where
  "peak_mark h peakCounts xp dens =
     (case xp of (x, peak) \<Rightarrow>
        (case dens of (vert, horiz) \<Rightarrow>
           (if peak \<ge> 0 then
              (if peak < int h
               then Inr (add_cell (nat peak) x 1 vert,
                         add_cell (nat peak) x (peakCounts ! x) horiz)
               else Inl TypeError)
            else Inr (vert, horiz))))"

definition peak_run :: "nat \<Rightarrow> nat \<Rightarrow> nat \<Rightarrow> int list \<Rightarrow> grid \<times> grid \<Rightarrow> js_error + grid \<times> grid" where
  "peak_run ml w h run dens =
     (case fold (peak_visit ml w) (enumerate 0 run) (replicate w (- 1), replicate w 0) of
        (peakValues, peakCounts) \<Rightarrow>
          forEach (peak_mark h peakCounts) (enumerate 0 peakValues) dens)"

definition calculatePeakDensity ::
  "int list list \<Rightarrow> grid \<Rightarrow> grid \<Rightarrow> nat \<Rightarrow> nat \<Rightarrow> nat \<Rightarrow> js_error + grid \<times> grid" where
  "calculatePeakDensity runs vert horiz ml w h = forEach (peak_run ml w h) runs (vert, horiz)"

section \<open>Scaling (VisualizationEngine._applyColorScaling, _normalizeAlphaDensity)\<close>

text \<open>
  Normalised values are reals. The loops read \<open>verticalDensity[y][x]\<close> for
  \<open>y < gridHeight\<close> and \<open>x < gridWidth\<close>; \<open>createHeatmap\<close> passes grids of exactly
  that shape. \<open>Math.max(...xs)\<close> of a non-empty array is its maximum.
\<close>

definition cells :: "(nat \<Rightarrow> real) \<Rightarrow> grid \<Rightarrow> nat \<Rightarrow> nat \<Rightarrow> real list list" where
  "cells f g w h = map (\<lambda>y. map (\<lambda>x. f (g ! y ! x)) [0..<w]) [0..<h]"

definition zero_cells :: "nat \<Rightarrow> nat \<Rightarrow> real list list" where
  "zero_cells w h = replicate h (replicate w 0)"

text \<open>
  The entry \<open>idx / (uniqueValues.length - 1)\<close> of the percentile map. With a single
  distinct value the quotient is \<open>0 / 0\<close>, which is \<open>NaN\<close> in JavaScript: \<open>None\<close>
  here. (The index is below the length, so no other division by zero arises.)
\<close>

definition rank_value :: "nat \<Rightarrow> nat \<Rightarrow> real option" where
  "rank_value idx n = (if n - 1 = 0 then None else Some (real idx / real (n - 1)))"

definition percentileMap :: "nat list \<Rightarrow> nat \<rightharpoonup> real option" where
  "percentileMap uniqueValues =
     (fold (\<lambda>iv m. case iv of (idx, val) \<Rightarrow> m(val \<mapsto> rank_value idx (length uniqueValues)))
        (enumerate 0 uniqueValues) Map.empty)(0 \<mapsto> Some 0)"

text \<open>\<open>percentileMap.get(v) || 0\<close>: a missing key, \<open>NaN\<close> and \<open>0\<close> are all falsy.\<close>

definition get_or_zero :: "(nat \<rightharpoonup> real option) \<Rightarrow> nat \<Rightarrow> real" where
  "get_or_zero m v = (case m v of None \<Rightarrow> 0 | Some None \<Rightarrow> 0 | Some (Some r) \<Rightarrow> r)"

definition applyColorScaling :: "grid \<Rightarrow> string \<Rightarrow> nat \<Rightarrow> nat \<Rightarrow> real list list" where
  "applyColorScaling verticalDensity colorScaling w h =
     (let flatDensity = filter (\<lambda>d. d > 0) (concat verticalDensity) in
      if flatDensity = [] then zero_cells w h
      else if colorScaling = ''sqrt'' then
        (let maxSqrt = sqrt (real (Max (set flatDensity)))
         in cells (\<lambda>v. sqrt (real v) / maxSqrt) verticalDensity w h)
      else if colorScaling = ''log'' then
        (let maxLog = ln (real (Max (set flatDensity)) + 1)
         in cells (\<lambda>v. ln (real v + 1) / maxLog) verticalDensity w h)
      else if colorScaling = ''percentile'' then
        (let uniqueValues = sort (remdups flatDensity)
         in cells (get_or_zero (percentileMap uniqueValues)) verticalDensity w h)
      else
        (let maxLinear = real (Max (set flatDensity))
         in cells (\<lambda>v. real v / maxLinear) verticalDensity w h))"

text \<open>\<open>Math.max()\<close> of no arguments is \<open>-Infinity\<close>, which is not positive.\<close>

definition normalizeAlphaDensity :: "grid \<Rightarrow> nat \<Rightarrow> nat \<Rightarrow> real list list" where
  "normalizeAlphaDensity horizontalDensity w h =
     (let flat = concat horizontalDensity in
      if flat \<noteq> [] \<and> Max (set flat) > 0
      then cells (\<lambda>v. sqrt (real v / real (Max (set flat)))) horizontalDensity w h
      else zero_cells w h)"

subsection \<open>createHeatmap\<close>

text \<open>
  For no runs the source returns empty grids and leaves the raw fields out; the model
  gives them as empty grids.
\<close>

record heatmap =
  colorDensity :: "real list list"
  alphaDensity :: "real list list"
  rawVerticalDensity :: grid
  rawHorizontalDensity :: grid
  gridWidth :: nat
  gridHeight :: nat
  maxLength :: nat
  totalRuns :: nat

definition createHeatmap :: "int list list \<Rightarrow> string \<Rightarrow> string \<Rightarrow> int \<Rightarrow> js_error + heatmap" where
  "createHeatmap runs colorScaling visualizationType maxValue =
     (if runs = [] then
        Inr \<lparr> colorDensity = [], alphaDensity = [], rawVerticalDensity = [],
              rawHorizontalDensity = [], gridWidth = 0, gridHeight = 0, maxLength = 0,
              totalRuns = 0 \<rparr>
      else
        (let ml = Max (set (map length runs));
             w = min ml 1000
         in if maxValue + 1 < 0 then Inl RangeError
            else
              (let h = nat (maxValue + 1) in
               case (if visualizationType = ''peak''
                     then calculatePeakDensity runs (zero_grid h w) (zero_grid h w) ml w h
                     else calculateFullDensity runs (zero_grid h w) (zero_grid h w) ml w h) of
                 Inl e \<Rightarrow> Inl e
               | Inr (vert, horiz) \<Rightarrow>
                   Inr \<lparr> colorDensity = applyColorScaling vert colorScaling w h,
                         alphaDensity = normalizeAlphaDensity horiz w h,
                         rawVerticalDensity = vert,
                         rawHorizontalDensity = horiz,
                         gridWidth = w, gridHeight = h, maxLength = ml,
                         totalRuns = length runs \<rparr>)))"

text \<open>The sum of one column of a grid over all counter values.\<close>

definition column_sum :: "grid \<Rightarrow> nat \<Rightarrow> nat" where
  "column_sum g x = sum_list (map (\<lambda>row. row ! x) g)"

subsection \<open>Invariants of the aggregation\<close>

text \<open>
  A grid of \<open>h\<close> rows of \<open>w\<close> cells each.
\<close>

definition shaped :: "nat \<Rightarrow> nat \<Rightarrow> 'a list list \<Rightarrow> bool" where
  "shaped h w g \<longleftrightarrow> length g = h \<and> (\<forall>row \<in> set g. length row = w)"

text \<open>
  The horizontal density is at least the vertical density in every cell.
\<close>

definition dominated :: "nat \<Rightarrow> nat \<Rightarrow> grid \<times> grid \<Rightarrow> bool" where
  "dominated h w dens \<longleftrightarrow>
     (case dens of (vert, horiz) \<Rightarrow> \<forall>y < h. \<forall>x < w. vert ! y ! x \<le> horiz ! y ! x)"

text \<open>
  The invariant of the per-run peak arrays: both have one entry per time bin, and a bin
  whose peak has been set (is no longer the initial \<open>-1\<close>) has counted at least one entry.
\<close>

definition peaks_ok :: "nat \<Rightarrow> int list \<times> nat list \<Rightarrow> bool" where
  "peaks_ok w peaks \<longleftrightarrow>
     (case peaks of (peakValues, peakCounts) \<Rightarrow>
        length peakValues = w \<and> length peakCounts = w
        \<and> (\<forall>x < w. 0 \<le> peakValues ! x \<longrightarrow> 1 \<le> peakCounts ! x))"

text \<open>
  The invariant of the two density grids across the runs.
\<close>

definition dens_ok :: "nat \<Rightarrow> nat \<Rightarrow> grid \<times> grid \<Rightarrow> bool" where
  "dens_ok h w dens \<longleftrightarrow> shaped h w (fst dens) \<and> shaped h w (snd dens) \<and> dominated h w dens"

text \<open>
  The number of entries of a run that fall into time bin \<open>x\<close>.
\<close>

definition bin_count :: "nat \<Rightarrow> nat \<Rightarrow> int list \<Rightarrow> nat \<Rightarrow> nat" where
  "bin_count ml w run x = length (filter (\<lambda>iv. time_bin (fst iv) w ml = Some x) (enumerate 0 run))"

section \<open>Properties of the run simulator\<close>

lemma loop_fst_prefix:
  "simulateRun_loop ip df mv cap rnd p c i = (p', c', i') \<Longrightarrow> prefix p p'"
proof (induction ip df mv cap rnd p c i rule: simulateRun_loop.induct)
  case (1 ip df mv cap rnd p c i)
  show ?case
  proof (cases "c < mv \<and> i < cap")
    case True
    with "1.prems" have "simulateRun_loop ip df mv cap rnd (p @ [c])
        (if rnd i < max 0 (min 1 (ip * df ^ nat c)) then c + 1 else max 0 (c - 1)) (i + 1) = (p', c', i')"
      by (subst (asm) simulateRun_loop.simps) (simp add: Let_def)
    from "1.IH"[OF True refl refl this] show ?thesis
      by (meson append_prefixD)
  next
    case False
    with "1.prems" show ?thesis
      by (subst (asm) simulateRun_loop.simps) simp
  qed
qed

lemma loop_inv_step:
  assumes "loop_inv mv p c" "c < mv"
  shows "loop_inv mv (p @ [c]) (c + 1)" "loop_inv mv (p @ [c]) (max 0 (c - 1))"
  using assms
  by (auto simp: loop_inv_def successively_append_iff valid_step_def hd_append)

lemma loop_inv_result:
  "simulateRun_loop ip df mv cap rnd p c i = (p', c', i') \<Longrightarrow> loop_inv mv p c \<Longrightarrow>
     loop_inv mv p' c' \<and> (c' \<ge> mv \<or> i' \<ge> cap) \<and> i \<le> i'"
proof (induction ip df mv cap rnd p c i rule: simulateRun_loop.induct)
  case (1 ip df mv cap rnd p c i)
  show ?case
  proof (cases "c < mv \<and> i < cap")
    case True
    let ?c = "(if rnd i < max 0 (min 1 (ip * df ^ nat c)) then c + 1 else max 0 (c - 1))"
    from True "1.prems"(1) have eq: "simulateRun_loop ip df mv cap rnd (p @ [c]) ?c (i + 1) = (p', c', i')"
      by (subst (asm) simulateRun_loop.simps) (simp add: Let_def)
    have "loop_inv mv (p @ [c]) ?c"
      using loop_inv_step[OF "1.prems"(2)] True by simp
    from "1.IH"[OF True refl refl eq this] show ?thesis by simp
  next
    case False
    with "1.prems" show ?thesis
      by (subst (asm) simulateRun_loop.simps) auto
  qed
qed


lemma loop_first_iteration:
  assumes "0 < mv" "0 < cap"
    and "simulateRun_loop ip df mv cap rnd [] 0 0 = (p', c', i')"
  shows "p' \<noteq> []" "0 < i'"
proof -
  let ?c = "(if rnd 0 < max 0 (min 1 (ip * df ^ nat 0)) then 0 + 1 else max 0 (0 - 1)) :: int"
  from assms have eq: "simulateRun_loop ip df mv cap rnd ([] @ [0]) ?c (0 + 1) = (p', c', i')"
    by (subst (asm) simulateRun_loop.simps) (simp add: Let_def)
  from loop_fst_prefix[OF eq] show "p' \<noteq> []" by auto
  have "loop_inv mv ([] @ [0]) ?c"
    using assms(1) by (auto simp: loop_inv_def valid_step_def)
  from loop_inv_result[OF eq this] show "0 < i'" by simp
qed

lemma loop_inv_init: "loop_inv mv [] 0"
  by (simp add: loop_inv_def)

text \<open>
  C1 (path validity). For a positive target and a positive iteration cap, whatever the
  probabilities and the draws, the returned path is not empty, starts with 0, and every
  two consecutive elements differ by +1 or -1, or by 0 when the earlier one is 0.
\<close>

theorem simulateRun_path_valid:
  assumes "0 < maxValue" "0 < cap"
  shows "path (simulateRun ip df maxValue cap rnd) \<noteq> []
       \<and> path (simulateRun ip df maxValue cap rnd) ! 0 = 0
       \<and> (\<forall>i. Suc i < length (path (simulateRun ip df maxValue cap rnd)) \<longrightarrow>
             valid_step (path (simulateRun ip df maxValue cap rnd) ! i)
                        (path (simulateRun ip df maxValue cap rnd) ! Suc i))"
proof -
  obtain p' c' i' where run: "simulateRun_loop ip df maxValue cap rnd [] 0 0 = (p', c', i')"
    by (metis prod_cases3)
  from loop_inv_result[OF run loop_inv_init]
  have inv: "successively valid_step (p' @ [c'])" "hd (p' @ [c']) = 0"
    by (simp_all add: loop_inv_def)
  have ne: "p' \<noteq> []" using loop_first_iteration(1)[OF assms run] .
  have pth: "path (simulateRun ip df maxValue cap rnd) = (if c' = maxValue then p' @ [c'] else p')"
    by (simp add: simulateRun_def run Let_def)
  have succ: "successively valid_step (path (simulateRun ip df maxValue cap rnd))"
    using inv(1) by (auto simp: pth successively_append_iff)
  have "hd (path (simulateRun ip df maxValue cap rnd)) = 0"
    using inv(2) ne by (simp add: pth)
  moreover have "path (simulateRun ip df maxValue cap rnd) \<noteq> []"
    using ne by (simp add: pth)
  ultimately show ?thesis
    using successively_nth[OF succ] by (simp add: hd_conv_nth)
qed

text \<open>
  C2 (completion). For a positive target and a positive iteration cap, the result is
  completed exactly when the last element of its path is the target, and no result is
  both completed and reported as \<open>iteration_limit\<close>.
\<close>

theorem simulateRun_completed_iff:
  assumes "0 < maxValue" "0 < cap"
  shows "path (simulateRun ip df maxValue cap rnd) \<noteq> []
       \<and> (completed (simulateRun ip df maxValue cap rnd)
            \<longleftrightarrow> last (path (simulateRun ip df maxValue cap rnd)) = maxValue)
       \<and> \<not> (completed (simulateRun ip df maxValue cap rnd)
              \<and> reason (simulateRun ip df maxValue cap rnd) = Iteration_limit)"
proof -
  obtain p' c' i' where run: "simulateRun_loop ip df maxValue cap rnd [] 0 0 = (p', c', i')"
    by (metis prod_cases3)
  from loop_inv_result[OF run loop_inv_init]
  have below: "\<forall>v \<in> set p'. v < maxValue"
    by (simp add: loop_inv_def)
  have ne: "p' \<noteq> []" using loop_first_iteration(1)[OF assms run] .
  then have "last p' \<in> set p'" by simp
  with below have "last p' \<noteq> maxValue" by auto
  then show ?thesis
    using ne by (simp add: simulateRun_def run Let_def)
qed

text \<open>
  C7 as amended (termination reason). For every integer target that is not negative and
  every iteration cap, the reason is \<open>success\<close> or \<open>iteration_limit\<close>: the loop
  ends with the counter at the target or with the iterations at the cap, so the
  \<open>unknown\<close> branch is not taken.
\<close>

theorem simulateRun_reason_known:
  assumes "0 \<le> maxValue"
  shows "reason (simulateRun ip df maxValue cap rnd) = Success
       \<or> reason (simulateRun ip df maxValue cap rnd) = Iteration_limit"
proof -
  obtain p' c' i' where run: "simulateRun_loop ip df maxValue cap rnd [] 0 0 = (p', c', i')"
    by (metis prod_cases3)
  from loop_inv_result[OF run loop_inv_init] assms
  have "c' \<le> maxValue" "maxValue \<le> c' \<or> cap \<le> i'"
    by (simp_all add: loop_inv_def)
  then show ?thesis
    by (auto simp: simulateRun_def run Let_def)
qed

text \<open>
  C7 as stated, for every result, fails. With the target \<open>-1\<close> and the default iteration
  cap the loop never runs: the counter 0 is above the target, so the run is not completed,
  no iteration was made, so the cap is not hit, and the fallback branch gives
  \<open>unknown\<close> with an empty path.
\<close>

theorem simulateRun_reason_unknown_counterexample:
  "reason (simulateRun (1/2) 1 (- 1) defaultIterationSafetyLimit (\<lambda>_. 0)) = Unknown
   \<and> path (simulateRun (1/2) 1 (- 1) defaultIterationSafetyLimit (\<lambda>_. 0)) = []
   \<and> \<not> (reason (simulateRun (1/2) 1 (- 1) defaultIterationSafetyLimit (\<lambda>_. 0)) = Success
          \<or> reason (simulateRun (1/2) 1 (- 1) defaultIterationSafetyLimit (\<lambda>_. 0))
              = Iteration_limit)"
  by (simp add: simulateRun_def simulateRun_loop.simps defaultIterationSafetyLimit_def)

lemma loop_up:
  assumes "c < mv" "i < cap" "rnd i < max 0 (min 1 (ip * df ^ nat c))"
  shows "simulateRun_loop ip df mv cap rnd p c i = simulateRun_loop ip df mv cap rnd (p @ [c]) (c + 1) (Suc i)"
  using assms by (subst simulateRun_loop.simps) (simp add: Let_def)

lemma loop_exit:
  assumes "\<not> (c < mv \<and> i < cap)"
  shows "simulateRun_loop ip df mv cap rnd p c i = (p, c, i)"
  using assms by (subst simulateRun_loop.simps) auto

text \<open>
  C9 (scenario). With \<open>initialProb = 1\<close>, \<open>decayFactor = 1\<close> and target 3, for every
  sequence of draws from \<open>[0,1)\<close> and every iteration cap of at least 3 (the default
  is ten million), the run takes exactly 3 iterations, returns the path
  \<open>[0,1,2,3]\<close> and is completed.
\<close>

theorem simulateRun_certain_walk:
  assumes "\<forall>i. 0 \<le> rnd i \<and> rnd i < 1" "3 \<le> cap"
  shows "path (simulateRun 1 1 3 cap rnd) = [0, 1, 2, 3]
       \<and> completed (simulateRun 1 1 3 cap rnd)
       \<and> iterations (simulateRun 1 1 3 cap rnd) = 3
       \<and> reason (simulateRun 1 1 3 cap rnd) = Success"
proof -
  have d: "rnd i < max 0 (min 1 (1 * 1 ^ nat c))" for i c
    using assms(1) by simp
  have "simulateRun_loop 1 1 3 cap rnd [] 0 0 = simulateRun_loop 1 1 3 cap rnd [0] 1 (Suc 0)"
    using loop_up[of 0 3 0 cap rnd 1 1 "[]"] d assms(2) by simp
  also have "\<dots> = simulateRun_loop 1 1 3 cap rnd [0, 1] 2 (Suc (Suc 0))"
    using loop_up[of 1 3 "Suc 0" cap rnd 1 1 "[0]"] d assms(2) by simp
  also have "\<dots> = simulateRun_loop 1 1 3 cap rnd [0, 1, 2] 3 (Suc (Suc (Suc 0)))"
    using loop_up[of 2 3 "Suc (Suc 0)" cap rnd 1 1 "[0, 1]"] d assms(2) by simp
  also have "\<dots> = ([0, 1, 2], 3, Suc (Suc (Suc 0)))"
    by (rule loop_exit) simp
  finally show ?thesis
    by (simp add: simulateRun_def Let_def)
qed

theorem simulateRun_path_valid_witness:
  "path (simulateRun (1/2) 1 2 5 (\<lambda>_. 0)) \<noteq> []
   \<and> path (simulateRun (1/2) 1 2 5 (\<lambda>_. 0)) ! 0 = 0
   \<and> valid_step (path (simulateRun (1/2) 1 2 5 (\<lambda>_. 0)) ! 0)
                 (path (simulateRun (1/2) 1 2 5 (\<lambda>_. 0)) ! Suc 0)
   \<and> valid_step (path (simulateRun (1/2) 1 2 5 (\<lambda>_. 0)) ! Suc 0)
                 (path (simulateRun (1/2) 1 2 5 (\<lambda>_. 0)) ! Suc (Suc 0))"
proof -
  have len: "length (path (simulateRun (1/2) 1 2 5 (\<lambda>_. 0))) = 3"
    by (simp add: simulateRun_def simulateRun_loop.simps)
  have "(0::int) < 2" "(0::nat) < 5" by simp_all
  note t = simulateRun_path_valid[OF this, of "1/2" 1 "\<lambda>_. 0"]
  from t have step: "Suc i < length (path (simulateRun (1/2) 1 2 5 (\<lambda>_. 0))) \<Longrightarrow>
      valid_step (path (simulateRun (1/2) 1 2 5 (\<lambda>_. 0)) ! i)
                 (path (simulateRun (1/2) 1 2 5 (\<lambda>_. 0)) ! Suc i)" for i
    by blast
  from t step[of 0] step[of "Suc 0"] len show ?thesis by simp
qed

theorem simulateRun_completed_iff_witness:
  "path (simulateRun (1/2) 1 2 5 (\<lambda>_. 3/4)) \<noteq> []
   \<and> (completed (simulateRun (1/2) 1 2 5 (\<lambda>_. 3/4))
        \<longleftrightarrow> last (path (simulateRun (1/2) 1 2 5 (\<lambda>_. 3/4))) = 2)
   \<and> \<not> (completed (simulateRun (1/2) 1 2 5 (\<lambda>_. 3/4))
          \<and> reason (simulateRun (1/2) 1 2 5 (\<lambda>_. 3/4)) = Iteration_limit)"
  using simulateRun_completed_iff[of 2 5 "1/2" 1 "\<lambda>_. 3/4"] by simp

theorem simulateRun_reason_known_witness:
  "reason (simulateRun (1/2) 1 2 5 (\<lambda>_. 3/4)) = Success
   \<or> reason (simulateRun (1/2) 1 2 5 (\<lambda>_. 3/4)) = Iteration_limit"
  using simulateRun_reason_known[of 2 "1/2" 1 5 "\<lambda>_. 3/4"] by simp

theorem simulateRun_certain_walk_witness:
  "path (simulateRun 1 1 3 defaultIterationSafetyLimit (\<lambda>_. 1/2)) = [0, 1, 2, 3]
   \<and> completed (simulateRun 1 1 3 defaultIterationSafetyLimit (\<lambda>_. 1/2))
   \<and> iterations (simulateRun 1 1 3 defaultIterationSafetyLimit (\<lambda>_. 1/2)) = 3
   \<and> reason (simulateRun 1 1 3 defaultIterationSafetyLimit (\<lambda>_. 1/2)) = Success"
  using simulateRun_certain_walk[of "\<lambda>_. 1/2" defaultIterationSafetyLimit]
  by (simp add: defaultIterationSafetyLimit_def)

section \<open>Properties of the batch scheduler\<close>

lemma record_attempt_extends:
  "s_totalAttempts s \<le> s_totalAttempts (record_attempt res s)"
  "s_successfulRuns s \<le> s_successfulRuns (record_attempt res s)"
  "prefix (s_completedRuns s) (s_completedRuns (record_attempt res s))"
  "prefix (s_failedRuns s) (s_failedRuns (record_attempt res s))"
  "prefix (s_allAttempts s) (s_allAttempts (record_attempt res s))"
  by (simp_all add: record_attempt_def Let_def)

lemma extends_refl: "extends s s"
  by (simp add: extends_def)

lemma extends_trans: "extends a b \<Longrightarrow> extends b c \<Longrightarrow> extends a c"
  unfolding extends_def by (meson le_trans prefix_order.trans)

lemma extends_console: "extends s (s\<lparr> s_console := c \<rparr>)"
  by (simp add: extends_def)

lemma extends_record_attempt: "extends s (record_attempt res s)"
  by (simp add: extends_def record_attempt_extends)

lemma batch_loop_extends:
  "batch_loop n ip df mv tlimit ts s = Some s' \<Longrightarrow> extends s s'"
proof (induction ts arbitrary: s)
  case Nil
  then show ?case by (simp add: extends_refl split: if_splits)
next
  case (Cons t ts)
  show ?case
  proof (cases "s_successfulRuns s < n \<and> \<not> tick_stop t")
    case False
    with Cons.prems show ?thesis by (auto simp: extends_refl)
  next
    case True
    obtain events brk where tc: "time_checks tlimit (tick_elapsed t) = (events, brk)"
      by (cases "time_checks tlimit (tick_elapsed t)")
    let ?s1 = "s\<lparr> s_console := s_console s @ events \<rparr>"
    show ?thesis
    proof (cases brk)
      case True
      with \<open>s_successfulRuns s < n \<and> \<not> tick_stop t\<close> tc Cons.prems have "s' = ?s1"
        by (simp add: Let_def)
      then show ?thesis by (simp add: extends_console)
    next
      case False
      let ?res = "simulateRun ip df mv
                   (if tlimit = None then MAX_SAFE_INTEGER else defaultIterationSafetyLimit)
                   (tick_random t)"
      from False \<open>s_successfulRuns s < n \<and> \<not> tick_stop t\<close> tc Cons.prems
      have "batch_loop n ip df mv tlimit ts (record_attempt ?res ?s1) = Some s'"
        by (simp add: Let_def)
      from Cons.IH[OF this] have "extends (record_attempt ?res ?s1) s'" .
      with extends_trans[OF extends_console extends_record_attempt]
      show ?thesis by (rule extends_trans)
    qed
  qed
qed

text \<open>
  C6 (continuation). When \<open>runMultipleSimulations\<close> is given \<open>existingResults\<close> and
  returns, the returned \<open>totalAttempts\<close> and \<open>actualSuccesses\<close> are at least those of
  \<open>existingResults\<close>, and the earlier \<open>completedRuns\<close>, \<open>failedRuns\<close> and
  \<open>allAttempts\<close> are prefixes of the returned lists: prior work is kept, in order and
  unchanged.
\<close>

theorem continuation_keeps_prior_work:
  assumes "runMultipleSimulations numRuns ip df mv tlimit (Some ex) env = Some (r, out)"
  shows "totalAttempts ex \<le> totalAttempts r
       \<and> actualSuccesses ex \<le> actualSuccesses r
       \<and> prefix (completedRuns ex) (completedRuns r)
       \<and> prefix (failedRuns ex) (failedRuns r)
       \<and> prefix (allAttempts ex) (allAttempts r)"
proof -
  from assms obtain s where
    loop: "batch_loop numRuns ip df mv tlimit (ticks env) (initial_state (Some ex)) = Some s"
    and r: "completedRuns r = s_completedRuns s" "failedRuns r = s_failedRuns s"
      "allAttempts r = s_allAttempts s" "totalAttempts r = s_totalAttempts s"
      "actualSuccesses r = s_successfulRuns s"
    by (auto simp: runMultipleSimulations_def Let_def split: option.splits)
  from batch_loop_extends[OF loop] show ?thesis
    by (simp add: extends_def r initial_state_def)
qed

text \<open>
  The safety checks of the unlimited phase as the code has them: nothing is printed up to
  120 seconds, the warning is printed above 120 seconds, and the loop is left above 300
  seconds.
\<close>

lemma time_checks_unlimited:
  "time_checks None el =
     (if el > 300000 then ([Warn_unlimited_running, Error_safety_stop], True)
      else if el > 120000 then ([Warn_unlimited_running], False)
      else ([], False))"
  by (simp add: time_checks_def truthy_def)

text \<open>
  C10 (safety thresholds of the unlimited phase). The claim has a soft warning once the
  elapsed time exceeds 60 seconds, as the comment above the check says (\<open>warn after 60 seconds\<close>). At 90 seconds the check prints nothing and does not leave the loop: the
  warning sits inside the test for 120 seconds.
\<close>

theorem unlimited_silent_between_60s_and_120s:
  "time_checks None 90000 = ([], False)"
  by (simp add: time_checks_def truthy_def)

text \<open>
  The hard abort: above 300 seconds the loop ends at once and hands back the state
  accumulated so far, with only the two messages added.
\<close>

lemma hard_abort_returns_partial_results:
  assumes "s_successfulRuns s < numRuns" "\<not> tick_stop t" "tick_elapsed t > 300000"
  shows "batch_loop numRuns ip df mv None (t # ts) s
           = Some (s\<lparr> s_console := s_console s @ [Warn_unlimited_running, Error_safety_stop] \<rparr>)"
  using assms by (simp add: time_checks_unlimited)

theorem continuation_keeps_prior_work_witness:
  "(case runMultipleSimulations 1 1 1 1 (Some 10000)
           (Some \<lparr> completedRuns = [],
                   allAttempts = [\<lparr> path = [0, 0], completed = False, iterations = 2,
                                    hitIterationLimit = True, reason = Iteration_limit \<rparr>],
                   failedRuns = [\<lparr> path = [0, 0], completed = False, iterations = 2,
                                    hitIterationLimit = True, reason = Iteration_limit \<rparr>],
                   desiredSuccesses = 1, actualSuccesses = 0, totalAttempts = 1,
                   parameterEfficiency = 0, totalTimeMs = 2001, totalSimulationTimeMs = 2001,
                   reachedDesiredCount = False, hitTimeLimit = True, wasStopped = False,
                   hasAnyData = False, timeoutPhase = Initial \<rparr>)
           \<lparr> ticks = [\<lparr> tick_stop = False, tick_elapsed = 0, tick_random = (\<lambda>_. 0) \<rparr>],
             end_elapsed = 1, end_stop = False \<rparr> of
      None \<Rightarrow> False
    | Some (r, out) \<Rightarrow>
        1 \<le> totalAttempts r \<and> 0 \<le> actualSuccesses r \<and> prefix [] (completedRuns r)
        \<and> prefix [\<lparr> path = [0, 0], completed = False, iterations = 2,
                      hitIterationLimit = True, reason = Iteration_limit \<rparr>] (failedRuns r)
        \<and> prefix [\<lparr> path = [0, 0], completed = False, iterations = 2,
                      hitIterationLimit = True, reason = Iteration_limit \<rparr>] (allAttempts r))"
proof -
  have "\<exists>r out. runMultipleSimulations 1 1 1 1 (Some 10000)
           (Some \<lparr> completedRuns = [],
                   allAttempts = [\<lparr> path = [0, 0], completed = False, iterations = 2,
                                    hitIterationLimit = True, reason = Iteration_limit \<rparr>],
                   failedRuns = [\<lparr> path = [0, 0], completed = False, iterations = 2,
                                    hitIterationLimit = True, reason = Iteration_limit \<rparr>],
                   desiredSuccesses = 1, actualSuccesses = 0, totalAttempts = 1,
                   parameterEfficiency = 0, totalTimeMs = 2001, totalSimulationTimeMs = 2001,
                   reachedDesiredCount = False, hitTimeLimit = True, wasStopped = False,
                   hasAnyData = False, timeoutPhase = Initial \<rparr>)
           \<lparr> ticks = [\<lparr> tick_stop = False, tick_elapsed = 0, tick_random = (\<lambda>_. 0) \<rparr>],
             end_elapsed = 1, end_stop = False \<rparr> = Some (r, out)"
    by (simp add: runMultipleSimulations_def initial_state_def time_checks_def truthy_def
        record_attempt_def Let_def simulateRun_def simulateRun_loop.simps
        defaultIterationSafetyLimit_def previousTimeMs_def)
  then obtain r out where run: "runMultipleSimulations 1 1 1 1 (Some 10000)
           (Some \<lparr> completedRuns = [],
                   allAttempts = [\<lparr> path = [0, 0], completed = False, iterations = 2,
                                    hitIterationLimit = True, reason = Iteration_limit \<rparr>],
                   failedRuns = [\<lparr> path = [0, 0], completed = False, iterations = 2,
                                    hitIterationLimit = True, reason = Iteration_limit \<rparr>],
                   desiredSuccesses = 1, actualSuccesses = 0, totalAttempts = 1,
                   parameterEfficiency = 0, totalTimeMs = 2001, totalSimulationTimeMs = 2001,
                   reachedDesiredCount = False, hitTimeLimit = True, wasStopped = False,
                   hasAnyData = False, timeoutPhase = Initial \<rparr>)
           \<lparr> ticks = [\<lparr> tick_stop = False, tick_elapsed = 0, tick_random = (\<lambda>_. 0) \<rparr>],
             end_elapsed = 1, end_stop = False \<rparr> = Some (r, out)"
    by blast
  from continuation_keeps_prior_work[OF run] show ?thesis
    unfolding run by simp
qed

text \<open>
  The loop returns whenever the trace of observations ends with a stop request.
\<close>

lemma batch_loop_returns_on_stop:
  assumes "tick_stop t"
  shows "\<exists>s'. batch_loop n ip df mv tlimit (ts @ [t]) s = Some s'"
proof (induction ts arbitrary: s)
  case Nil
  from assms show ?case by simp
next
  case (Cons a ts)
  show ?case
  proof (cases "s_successfulRuns s < n \<and> \<not> tick_stop a")
    case False
    then show ?thesis by auto
  next
    case True
    obtain events brk where tc: "time_checks tlimit (tick_elapsed a) = (events, brk)"
      by (cases "time_checks tlimit (tick_elapsed a)")
    show ?thesis
    proof (cases brk)
      case True
      with \<open>s_successfulRuns s < n \<and> \<not> tick_stop a\<close> tc show ?thesis
        by (simp add: Let_def)
    next
      case False
      with \<open>s_successfulRuns s < n \<and> \<not> tick_stop a\<close> tc Cons.IH show ?thesis
        by (simp add: Let_def)
    qed
  qed
qed

section \<open>Properties of the density aggregation\<close>

lemma shaped_zero_grid: "shaped h w (zero_grid h w)"
  by (simp add: shaped_def zero_grid_def)

lemma shaped_row: "shaped h w g \<Longrightarrow> y < h \<Longrightarrow> length (g ! y) = w"
  unfolding shaped_def by (metis nth_mem)

lemma shaped_add_cell: "shaped h w g \<Longrightarrow> shaped h w (add_cell y x n g)"
proof (cases "y < length g")
  case True
  assume sh: "shaped h w g"
  with True have "length (g ! y) = w" by (simp add: shaped_def)
  with sh show ?thesis
    unfolding shaped_def add_cell_def
    by (auto dest!: set_update_subset_insert[THEN subsetD])
next
  case False
  assume "shaped h w g"
  with False show ?thesis by (simp add: add_cell_def list_update_beyond)
qed

lemma nth_add_cell:
  assumes "shaped h w g" "y < h" "x < w" "y' < h" "x' < w"
  shows "add_cell y x n g ! y' ! x' = (if y' = y \<and> x' = x then g ! y ! x + n else g ! y' ! x')"
  using assms by (auto simp: add_cell_def shaped_def nth_list_update)

lemma column_sum_add_cell:
  assumes "shaped h w g" "y < h" "x < w"
  shows "column_sum (add_cell y x n g) x' = column_sum g x' + (if x' = x then n else 0)"
proof -
  have len: "y < length g" "x < length (g ! y)"
    using assms by (simp_all add: shaped_def)
  have "column_sum (add_cell y x n g) x'
          = sum_list ((map (\<lambda>row. row ! x') g)[y := (g ! y)[x := g ! y ! x + n] ! x'])"
    by (simp add: column_sum_def add_cell_def map_update)
  also have "\<dots> = sum_list (map (\<lambda>row. row ! x') g) + (g ! y)[x := g ! y ! x + n] ! x'
                  - g ! y ! x'"
    using len by (simp add: sum_list_update)
  also have "\<dots> = column_sum g x' + (if x' = x then n else 0)"
    using len by (simp add: column_sum_def nth_list_update)
  finally show ?thesis .
qed

lemma column_sum_nth: "column_sum g x = (\<Sum>y = 0..<length g. g ! y ! x)"
  by (simp add: column_sum_def sum_list_sum_nth)

lemma time_bin_less: "time_bin i w ml = Some x \<Longrightarrow> x < w"
  by (auto simp: time_bin_def Let_def split: if_splits)

lemma forEach_invariant:
  assumes "forEach f items s = Inr s'" "P s"
    and "\<And>a t t'. a \<in> set items \<Longrightarrow> P t \<Longrightarrow> f a t = Inr t' \<Longrightarrow> P t'"
  shows "P s'"
  using assms
proof (induction items arbitrary: s)
  case Nil
  then show ?case by simp
next
  case (Cons a items)
  from Cons.prems(1) obtain t where t: "f a s = Inr t" and rest: "forEach f items t = Inr s'"
    by (auto split: sum.splits)
  have "P t" using Cons.prems(3)[OF _ Cons.prems(2) t] by simp
  show ?case
  proof (rule Cons.IH[OF rest \<open>P t\<close>])
    fix b u u' assume "b \<in> set items" "P u" "f b u = Inr u'"
    then show "P u'" using Cons.prems(3)[of b u u'] by simp
  qed
qed

lemma dens_ok_zero: "dens_ok h w (zero_grid h w, zero_grid h w)"
  by (simp add: dens_ok_def shaped_zero_grid dominated_def)

lemma merge_bins_ok:
  assumes "dens_ok h w dens"
  shows "dens_ok h w (merge_bins w h bc dens)"
proof -
  obtain vert horiz where d: "dens = (vert, horiz)" by (cases dens)
  from assms d have dom: "\<And>y x. y < h \<Longrightarrow> x < w \<Longrightarrow> vert ! y ! x \<le> horiz ! y ! x"
    by (simp add: dens_ok_def dominated_def)
  have cell: "fst (merge_bins w h bc dens) ! y ! x \<le> snd (merge_bins w h bc dens) ! y ! x"
    if "y < h" "x < w" for y x
    using dom[OF that] that by (simp add: merge_bins_def d)
  have "shaped h w (fst (merge_bins w h bc dens))" "shaped h w (snd (merge_bins w h bc dens))"
    by (auto simp: merge_bins_def d shaped_def)
  with cell show ?thesis
    by (simp add: dens_ok_def dominated_def split_beta)
qed

lemma full_run_ok:
  assumes "full_run ml w h run dens = Inr dens'" "dens_ok h w dens"
  shows "dens_ok h w dens'"
  using assms by (auto simp: full_run_def merge_bins_ok split: sum.splits)

lemma calculateFullDensity_ok:
  assumes "calculateFullDensity runs vert horiz ml w h = Inr dens'" "dens_ok h w (vert, horiz)"
  shows "dens_ok h w dens'"
  using assms(1)[unfolded calculateFullDensity_def] assms(2)
  by (rule forEach_invariant) (rule full_run_ok)

lemma peak_visit_ok:
  assumes "peaks_ok w peaks"
  shows "peaks_ok w (peak_visit ml w iv peaks)"
proof -
  obtain index v where iv: "iv = (index, v)" by (cases iv)
  obtain pv pc where p: "peaks = (pv, pc)" by (cases peaks)
  show ?thesis
  proof (cases "time_bin index w ml")
    case None
    with assms show ?thesis by (simp add: peak_visit_def iv p)
  next
    case (Some x)
    then have "x < w" by (rule time_bin_less)
    with assms Some show ?thesis
      by (auto simp: peak_visit_def iv p peaks_ok_def nth_list_update)
  qed
qed

lemma fold_peak_visit_ok:
  "peaks_ok w peaks \<Longrightarrow> peaks_ok w (fold (peak_visit ml w) items peaks)"
  by (induction items arbitrary: peaks) (simp_all add: peak_visit_ok)

lemma peaks_ok_init: "peaks_ok w (replicate w (- 1), replicate w 0)"
  by (simp add: peaks_ok_def)

lemma peak_mark_ok:
  assumes "peak_mark h pc (x, peak) dens = Inr dens'" "dens_ok h w dens"
    and "x < w" "0 \<le> peak \<Longrightarrow> 1 \<le> pc ! x"
  shows "dens_ok h w dens'"
proof -
  obtain vert horiz where d: "dens = (vert, horiz)" by (cases dens)
  from assms(2) d have sh: "shaped h w vert" "shaped h w horiz"
    and dom: "\<And>y z. y < h \<Longrightarrow> z < w \<Longrightarrow> vert ! y ! z \<le> horiz ! y ! z"
    by (simp_all add: dens_ok_def dominated_def)
  show ?thesis
  proof (cases "0 \<le> peak")
    case False
    with assms(1,2) show ?thesis by (simp add: peak_mark_def d)
  next
    case True
    with assms(1) have lt: "peak < int h"
      and res: "dens' = (add_cell (nat peak) x 1 vert, add_cell (nat peak) x (pc ! x) horiz)"
      by (auto simp: peak_mark_def d split: if_splits)
    from True lt have y: "nat peak < h" by simp
    from True assms(4) have pos: "1 \<le> pc ! x" by simp
    have "add_cell (nat peak) x 1 vert ! y' ! x' \<le> add_cell (nat peak) x (pc ! x) horiz ! y' ! x'"
      if "y' < h" "x' < w" for y' x'
      using dom[OF that] dom[OF y assms(3)] pos
      by (simp add: nth_add_cell[OF sh(1) y assms(3) that] nth_add_cell[OF sh(2) y assms(3) that])
    then show ?thesis
      by (simp add: res dens_ok_def dominated_def shaped_add_cell sh)
  qed
qed

lemma peak_run_ok:
  assumes "peak_run ml w h run dens = Inr dens'" "dens_ok h w dens"
  shows "dens_ok h w dens'"
proof -
  obtain pv pc where f: "fold (peak_visit ml w) (enumerate 0 run) (replicate w (- 1), replicate w 0) = (pv, pc)"
    by (cases "fold (peak_visit ml w) (enumerate 0 run) (replicate w (- 1), replicate w 0)")
  from fold_peak_visit_ok[OF peaks_ok_init, of w ml "enumerate 0 run"] f
  have ok: "length pv = w" "\<And>x. x < w \<Longrightarrow> 0 \<le> pv ! x \<Longrightarrow> 1 \<le> pc ! x"
    by (simp_all add: peaks_ok_def)
  from assms(1) f have run: "forEach (peak_mark h pc) (enumerate 0 pv) dens = Inr dens'"
    by (simp add: peak_run_def)
  from run assms(2) show ?thesis
  proof (rule forEach_invariant)
    fix a t t'
    assume a: "a \<in> set (enumerate 0 pv)" and t: "dens_ok h w t" and step: "peak_mark h pc a t = Inr t'"
    obtain x peak where xp: "a = (x, peak)" by (cases a)
    from a xp ok(1) have "x < w" "peak = pv ! x"
      by (auto simp: in_set_enumerate_eq)
    with ok(2) have "0 \<le> peak \<Longrightarrow> 1 \<le> pc ! x" by simp
    from peak_mark_ok[OF step[unfolded xp] t \<open>x < w\<close> this] show "dens_ok h w t'" .
  qed
qed

lemma calculatePeakDensity_ok:
  assumes "calculatePeakDensity runs vert horiz ml w h = Inr dens'" "dens_ok h w (vert, horiz)"
  shows "dens_ok h w dens'"
  using assms(1)[unfolded calculatePeakDensity_def] assms(2)
  by (rule forEach_invariant) (rule peak_run_ok)

lemma createHeatmap_dens_ok:
  assumes "createHeatmap runs cs vt maxValue = Inr hm"
  shows "dens_ok (gridHeight hm) (gridWidth hm) (rawVerticalDensity hm, rawHorizontalDensity hm)"
proof (cases "runs = []")
  case True
  with assms have "hm = \<lparr> colorDensity = [], alphaDensity = [], rawVerticalDensity = [],
              rawHorizontalDensity = [], gridWidth = 0, gridHeight = 0, maxLength = 0,
              totalRuns = 0 \<rparr>"
    by (simp add: createHeatmap_def)
  then show ?thesis by (simp add: dens_ok_def shaped_def dominated_def)
next
  case False
  define ml where "ml = Max (set (map length runs))"
  define w where "w = min ml 1000"
  define h where "h = nat (maxValue + 1)"
  from assms False obtain vert horiz where
    calc: "(if vt = ''peak''
            then calculatePeakDensity runs (zero_grid h w) (zero_grid h w) ml w h
            else calculateFullDensity runs (zero_grid h w) (zero_grid h w) ml w h) = Inr (vert, horiz)"
    and hm: "rawVerticalDensity hm = vert" "rawHorizontalDensity hm = horiz"
      "gridWidth hm = w" "gridHeight hm = h"
    by (auto simp: createHeatmap_def Let_def ml_def w_def h_def split: if_splits sum.splits)
  have "dens_ok h w (vert, horiz)"
  proof (cases "vt = ''peak''")
    case True
    with calc show ?thesis by (auto intro: calculatePeakDensity_ok dens_ok_zero)
  next
    case False
    with calc show ?thesis by (auto intro: calculateFullDensity_ok dens_ok_zero)
  qed
  then show ?thesis by (simp add: hm)
qed

text \<open>
  C5 (density conservation). Whenever \<open>createHeatmap\<close> returns a heatmap, in the
  peak-trajectory mode and in the full-trace mode (every other mode string), every cell of
  the produced grids has \<open>horizontalDensity[y][x] >= verticalDensity[y][x]\<close>.
\<close>

theorem horizontal_dominates_vertical:
  assumes "createHeatmap runs colorScaling visualizationType maxValue = Inr hm"
  shows "\<forall>y < gridHeight hm. \<forall>x < gridWidth hm.
           rawVerticalDensity hm ! y ! x \<le> rawHorizontalDensity hm ! y ! x"
  using createHeatmap_dens_ok[OF assms] by (simp add: dens_ok_def dominated_def)

lemma full_visit_shaped:
  assumes "full_visit ml w h iv bc = Inr bc'" "shaped h w bc"
  shows "shaped h w bc'"
  using assms
  by (auto simp: full_visit_def shaped_add_cell split: prod.splits option.splits if_splits)

lemma full_visit_column:
  assumes "full_visit ml w h iv bc = Inr bc'" "shaped h w bc"
  shows "column_sum bc' x = column_sum bc x + (if time_bin (fst iv) w ml = Some x then 1 else 0)"
proof -
  obtain index v where iv: "iv = (index, v)" by (cases iv)
  show ?thesis
  proof (cases "time_bin index w ml")
    case None
    with assms show ?thesis by (simp add: full_visit_def iv)
  next
    case (Some x0)
    then have x0: "x0 < w" by (rule time_bin_less)
    from assms(1) Some have v: "0 \<le> v" "v < int h" and res: "bc' = add_cell (nat v) x0 1 bc"
      by (auto simp: full_visit_def iv split: if_splits)
    from v have "nat v < h" by simp
    from column_sum_add_cell[OF assms(2) this x0, of 1 x] Some show ?thesis
      by (auto simp: res iv)
  qed
qed

lemma forEach_full_visit_column:
  assumes "forEach (full_visit ml w h) items bc = Inr bc'" "shaped h w bc"
  shows "shaped h w bc' \<and>
         column_sum bc' x
           = column_sum bc x + length (filter (\<lambda>iv. time_bin (fst iv) w ml = Some x) items)"
  using assms
proof (induction items arbitrary: bc)
  case Nil
  then show ?case by simp
next
  case (Cons a items)
  from Cons.prems(1) obtain t where t: "full_visit ml w h a bc = Inr t"
    and rest: "forEach (full_visit ml w h) items t = Inr bc'"
    by (auto split: sum.splits)
  from full_visit_shaped[OF t Cons.prems(2)] have sh: "shaped h w t" .
  from Cons.IH[OF rest sh] full_visit_column[OF t Cons.prems(2), of x]
  show ?case by simp
qed

lemma full_visit_mono:
  assumes "full_visit ml w h iv bc = Inr bc'" "shaped h w bc" "y < h" "x < w"
  shows "bc ! y ! x \<le> bc' ! y ! x"
proof -
  obtain index v where iv: "iv = (index, v)" by (cases iv)
  show ?thesis
  proof (cases "time_bin index w ml")
    case None
    with assms show ?thesis by (simp add: full_visit_def iv)
  next
    case (Some x0)
    then have x0: "x0 < w" by (rule time_bin_less)
    from assms(1) Some have v: "0 \<le> v" "v < int h" and res: "bc' = add_cell (nat v) x0 1 bc"
      by (auto simp: full_visit_def iv split: if_splits)
    from v have "nat v < h" by simp
    from nth_add_cell[OF assms(2) this x0 assms(3,4), of 1] show ?thesis
      by (simp add: res)
  qed
qed

lemma forEach_full_visit_mono:
  assumes "forEach (full_visit ml w h) items bc = Inr bc'" "shaped h w bc" "y < h" "x < w"
  shows "bc ! y ! x \<le> bc' ! y ! x"
proof -
  have "shaped h w bc' \<and> bc ! y ! x \<le> bc' ! y ! x"
    using assms(1)
  proof (rule forEach_invariant)
    show "shaped h w bc \<and> bc ! y ! x \<le> bc ! y ! x" using assms(2) by simp
  next
    fix a t t'
    assume "shaped h w t \<and> bc ! y ! x \<le> t ! y ! x" "full_visit ml w h a t = Inr t'"
    then show "shaped h w t' \<and> bc ! y ! x \<le> t' ! y ! x"
      using full_visit_shaped[of ml w h a t t'] full_visit_mono[of ml w h a t t' y x] assms(3,4)
      by auto
  qed
  then show ?thesis by simp
qed

lemma forEach_full_visit_total:
  assumes "\<forall>iv \<in> set items. 0 \<le> snd iv \<and> snd iv < int h"
  shows "\<exists>bc'. forEach (full_visit ml w h) items bc = Inr bc'"
  using assms
proof (induction items arbitrary: bc)
  case Nil
  then show ?case by simp
next
  case (Cons a items)
  from Cons.prems have "\<exists>t. full_visit ml w h a bc = Inr t"
    by (cases a; cases "time_bin (fst a) w ml") (auto simp: full_visit_def)
  then obtain t where "full_visit ml w h a bc = Inr t" by blast
  with Cons.IH[of t] Cons.prems show ?case by simp
qed

lemma merge_bins_column:
  assumes "x < w"
  shows "column_sum (fst (merge_bins w h bc (vert, horiz))) x
           \<le> (\<Sum>y = 0..<h. vert ! y ! x) + (\<Sum>y = 0..<h. bc ! y ! x)"
proof -
  have "column_sum (fst (merge_bins w h bc (vert, horiz))) x
          = (\<Sum>y = 0..<h. if bc ! y ! x > 0 then vert ! y ! x + 1 else vert ! y ! x)"
    using assms by (auto simp: column_sum_nth merge_bins_def intro!: sum.cong)
  also have "\<dots> \<le> (\<Sum>y = 0..<h. vert ! y ! x + bc ! y ! x)"
    by (rule sum_mono) simp
  finally show ?thesis by (simp add: sum.distrib)
qed

lemma full_run_column:
  assumes "full_run ml w h run dens = Inr dens'" "dens_ok h w dens" "x < w"
  shows "column_sum (fst dens') x \<le> column_sum (fst dens) x + bin_count ml w run x"
proof -
  obtain vert horiz where d: "dens = (vert, horiz)" by (cases dens)
  from assms(1) obtain bc where bc: "forEach (full_visit ml w h) (enumerate 0 run) (zero_grid h w) = Inr bc"
    and res: "dens' = merge_bins w h bc dens"
    by (auto simp: full_run_def split: sum.splits)
  from forEach_full_visit_column[OF bc shaped_zero_grid, of x]
  have sh: "shaped h w bc" and col: "column_sum bc x = column_sum (zero_grid h w) x + bin_count ml w run x"
    by (simp_all add: bin_count_def)
  have z: "column_sum (zero_grid h w) x = 0"
    using assms(3) by (simp add: column_sum_def zero_grid_def)
  from sh have lb: "length bc = h" by (simp add: shaped_def)
  from assms(2) d have lv: "length vert = h" by (simp add: dens_ok_def shaped_def)
  from merge_bins_column[OF assms(3), of h bc vert horiz] show ?thesis
    using col z by (simp add: res d column_sum_nth lb lv)
qed

lemma calculateFullDensity_column:
  assumes "forEach (full_run ml w h) runs dens = Inr dens'" "dens_ok h w dens" "x < w"
  shows "column_sum (fst dens') x
           \<le> column_sum (fst dens) x + sum_list (map (\<lambda>run. bin_count ml w run x) runs)"
  using assms(1,2)
proof (induction runs arbitrary: dens)
  case Nil
  then show ?case by simp
next
  case (Cons run runs)
  from Cons.prems(1) obtain t where t: "full_run ml w h run dens = Inr t"
    and rest: "forEach (full_run ml w h) runs t = Inr dens'"
    by (auto split: sum.splits)
  from full_run_ok[OF t Cons.prems(2)] have ok: "dens_ok h w t" .
  from Cons.IH[OF rest ok] full_run_column[OF t Cons.prems(2) assms(3)]
  show ?case by simp
qed

lemma time_bin_uncompressed:
  "time_bin i ml ml = (if i < ml then Some i else None)"
  by (simp add: time_bin_def Let_def)

lemma bin_count_uncompressed: "bin_count ml ml run x \<le> 1"
proof -
  have "length (filter (\<lambda>i. time_bin i ml ml = Some x) (map fst (enumerate 0 run)))
          = bin_count ml ml run x"
    by (simp only: bin_count_def filter_map length_map comp_def)
  then have "bin_count ml ml run x
          = length (filter (\<lambda>i. time_bin i ml ml = Some x) [0..<length run])"
    by simp
  also have "\<dots> = card ({i. time_bin i ml ml = Some x} \<inter> set [0..<length run])"
    by (simp add: distinct_length_filter)
  also have "\<dots> \<le> card {x}"
    by (rule card_mono) (auto simp: time_bin_uncompressed split: if_splits)
  finally show ?thesis by simp
qed

lemma createHeatmap_full:
  assumes "createHeatmap runs cs vt maxValue = Inr hm" "vt \<noteq> ''peak''" "runs \<noteq> []"
  shows "calculateFullDensity runs (zero_grid (gridHeight hm) (gridWidth hm))
           (zero_grid (gridHeight hm) (gridWidth hm)) (maxLength hm) (gridWidth hm) (gridHeight hm)
           = Inr (rawVerticalDensity hm, rawHorizontalDensity hm)"
    and "maxLength hm = Max (set (map length runs))"
    and "gridWidth hm = min (maxLength hm) 1000"
    and "gridHeight hm = nat (maxValue + 1)"
  using assms
  by (auto simp: createHeatmap_def Let_def split: if_splits sum.splits)

text \<open>
  C3 as amended (column sums in full-trace mode). When no run has more than 1000 entries,
  every time bin holds at most one entry of each run, and then the sum of
  \<open>verticalDensity\<close> over a column is at most the number of runs.
\<close>

theorem full_trace_column_sum_bound:
  assumes "createHeatmap runs colorScaling visualizationType maxValue = Inr hm"
    and "visualizationType \<noteq> ''peak''"
    and "\<forall>run \<in> set runs. length run \<le> 1000"
    and "x < gridWidth hm"
  shows "column_sum (rawVerticalDensity hm) x \<le> length runs"
proof -
  from assms(1,4) have ne: "runs \<noteq> []"
    by (auto simp: createHeatmap_def)
  note full = createHeatmap_full[OF assms(1,2) ne]
  from assms(3) ne have "maxLength hm \<le> 1000"
    by (simp add: full(2))
  then have w: "gridWidth hm = maxLength hm"
    by (simp add: full(3))
  from calculateFullDensity_column[OF full(1)[unfolded calculateFullDensity_def] dens_ok_zero assms(4)]
  have "column_sum (rawVerticalDensity hm) x
          \<le> column_sum (zero_grid (gridHeight hm) (gridWidth hm)) x
            + sum_list (map (\<lambda>run. bin_count (maxLength hm) (gridWidth hm) run x) runs)"
    by simp
  also have "column_sum (zero_grid (gridHeight hm) (gridWidth hm)) x = 0"
    using assms(4) by (simp add: column_sum_def zero_grid_def)
  also have "sum_list (map (\<lambda>run. bin_count (maxLength hm) (gridWidth hm) run x) runs)
               \<le> sum_list (map (\<lambda>run. 1) runs)"
    unfolding w by (rule sum_list_mono) (rule bin_count_uncompressed)
  finally show ?thesis by (simp add: sum_list_triv)
qed

text \<open>
  In full-trace mode \<open>createHeatmap\<close> returns a heatmap for all runs whose values lie
  between 0 and the target.
\<close>

lemma full_run_total:
  assumes "\<forall>v \<in> set run. 0 \<le> v \<and> v < int h"
  shows "\<exists>d. full_run ml w h run dens = Inr d"
proof -
  from assms have "\<forall>iv \<in> set (enumerate 0 run). 0 \<le> snd iv \<and> snd iv < int h"
    by (auto simp: in_set_enumerate_eq)
  from forEach_full_visit_total[OF this, of ml w "zero_grid h w"] show ?thesis
    by (auto simp: full_run_def)
qed

lemma calculateFullDensity_total:
  assumes "\<forall>run \<in> set runs. \<forall>v \<in> set run. 0 \<le> v \<and> v < int h"
  shows "\<exists>d. calculateFullDensity runs vert horiz ml w h = Inr d"
proof -
  have "\<exists>d. forEach (full_run ml w h) runs dens = Inr d" for dens
    using assms
  proof (induction runs arbitrary: dens)
    case Nil
    then show ?case by simp
  next
    case (Cons run runs)
    from Cons.prems full_run_total[of run h ml w dens]
    obtain t where "full_run ml w h run dens = Inr t" by auto
    with Cons.IH[of t] Cons.prems show ?case by simp
  qed
  then show ?thesis by (simp add: calculateFullDensity_def)
qed

lemma createHeatmap_full_total:
  assumes "visualizationType \<noteq> ''peak''"
    and "\<forall>run \<in> set runs. \<forall>v \<in> set run. 0 \<le> v \<and> v \<le> maxValue"
    and "0 \<le> maxValue"
  shows "\<exists>hm. createHeatmap runs colorScaling visualizationType maxValue = Inr hm"
proof (cases "runs = []")
  case True
  then show ?thesis by (simp add: createHeatmap_def)
next
  case False
  define ml where "ml = Max (set (map length runs))"
  define w where "w = min ml 1000"
  define h where "h = nat (maxValue + 1)"
  from assms(2,3) have "\<forall>run \<in> set runs. \<forall>v \<in> set run. 0 \<le> v \<and> v < int h"
    by (auto simp: h_def)
  from calculateFullDensity_total[OF this, of "zero_grid h w" "zero_grid h w" ml w]
  obtain d where "calculateFullDensity runs (zero_grid h w) (zero_grid h w) ml w h = Inr d"
    by blast
  with False assms(1,3) show ?thesis
    by (cases d) (simp add: createHeatmap_def Let_def ml_def w_def h_def)
qed

text \<open>A completed run to target 2 with 1001 entries: its length and the range of its values.\<close>

lemma long_run_facts:
  "length (0 # 1 # concat (replicate 499 [0, 1]) @ [2 :: int]) = 1001"
  "\<forall>v \<in> set (0 # 1 # concat (replicate 499 [0, 1]) @ [2 :: int]). 0 \<le> v \<and> v \<le> 2"
  by (auto simp: length_concat sum_list_replicate)

text \<open>
  C3 as stated fails when time is compressed. One completed run to target 2 with 1001
  entries, \<open>0,1,0,1,...,0,1,2\<close>, gives 1000 columns; its entries 0 and 1 share column 0
  and mark two different counter values there, so the column sum is above the number of
  runs.
\<close>

theorem full_trace_column_sum_counterexample:
  "\<not> isl (createHeatmap [0 # 1 # concat (replicate 499 [0, 1]) @ [2]] ''linear'' ''full'' 2)
   \<and> 0 < gridWidth (projr (createHeatmap [0 # 1 # concat (replicate 499 [0, 1]) @ [2]]
                               ''linear'' ''full'' 2))
   \<and> length [0 # 1 # concat (replicate 499 [0, 1]) @ [2 :: int]]
       < column_sum (rawVerticalDensity (projr (createHeatmap
             [0 # 1 # concat (replicate 499 [0, 1]) @ [2]] ''linear'' ''full'' 2))) 0"
proof -
  define run :: "int list" where "run = 0 # 1 # concat (replicate 499 [0, 1]) @ [2]"
  have len: "length run = 1001" and rng: "\<forall>v \<in> set run. 0 \<le> v \<and> v \<le> 2"
    unfolding run_def by (rule long_run_facts)+
  have "\<exists>hm. createHeatmap [run] ''linear'' ''full'' 2 = Inr hm"
    by (rule createHeatmap_full_total) (use rng in auto)
  then obtain hm where hm: "createHeatmap [run] ''linear'' ''full'' 2 = Inr hm" by blast
  have ne: "[run] \<noteq> []" and full: "''full'' \<noteq> ''peak''" by simp_all
  note f = createHeatmap_full[OF hm full ne]
  have ml: "maxLength hm = 1001" by (simp add: f(2) len)
  have w: "gridWidth hm = 1000" by (simp add: f(3) ml)
  have h: "gridHeight hm = 3" by (simp add: f(4))
  let ?Z = "zero_grid 3 1000"
  from f(1)[unfolded calculateFullDensity_def ml w h]
  obtain bc where bc: "forEach (full_visit 1001 1000 3) (enumerate 0 run) ?Z = Inr bc"
    and res: "(rawVerticalDensity hm, rawHorizontalDensity hm) = merge_bins 1000 3 bc (?Z, ?Z)"
    by (auto simp: full_run_def split: sum.splits)
  define Z2 where "Z2 = add_cell 1 0 1 (add_cell 0 0 1 ?Z)"
  have shZ2: "shaped 3 1000 Z2"
    unfolding Z2_def by (intro shaped_add_cell shaped_zero_grid)
  have tb: "time_bin 0 1000 1001 = Some 0" "time_bin (Suc 0) 1000 1001 = Some 0"
    by (simp_all add: time_bin_def)
  from bc have rest: "forEach (full_visit 1001 1000 3)
        (enumerate (Suc (Suc 0)) (concat (replicate 499 [0, 1]) @ [2])) Z2 = Inr bc"
    by (simp add: run_def full_visit_def tb Z2_def)
  have c00: "Z2 ! 0 ! 0 = 1" and c10: "Z2 ! 1 ! 0 = 1"
    by (simp_all add: Z2_def add_cell_def zero_grid_def)
  from forEach_full_visit_mono[OF rest shZ2, of 0 0] c00 have b00: "0 < bc ! 0 ! 0" by simp
  from forEach_full_visit_mono[OF rest shZ2, of 1 0] c10 have b10: "0 < bc ! 1 ! 0" by simp
  from res have vert: "rawVerticalDensity hm = fst (merge_bins 1000 3 bc (?Z, ?Z))"
    by (metis fst_conv)
  have "column_sum (rawVerticalDensity hm) 0 \<ge> 2"
    using b00 b10
    by (simp add: vert column_sum_nth merge_bins_def zero_grid_def numeral_3_eq_3)
  then show ?thesis
    unfolding run_def[symmetric] by (simp add: hm w)
qed

theorem full_trace_column_sum_bound_witness:
  "\<not> isl (createHeatmap [[0, 1], [0, 0, 1]] ''linear'' ''full'' 1)
   \<and> 0 < gridWidth (projr (createHeatmap [[0, 1], [0, 0, 1]] ''linear'' ''full'' 1))
   \<and> column_sum (rawVerticalDensity (projr (createHeatmap [[0, 1], [0, 0, 1]] ''linear'' ''full'' 1))) 0
       \<le> length [[0, 1], [0, 0, 1 :: int]]"
proof -
  have "\<exists>hm. createHeatmap [[0, 1], [0, 0, 1]] ''linear'' ''full'' 1 = Inr hm"
    by (rule createHeatmap_full_total) auto
  then obtain hm where hm: "createHeatmap [[0, 1], [0, 0, 1]] ''linear'' ''full'' 1 = Inr hm"
    by blast
  have full: "''full'' \<noteq> ''peak''" and short: "\<forall>run \<in> set [[0, 1], [0, 0, 1 :: int]]. length run \<le> 1000"
    by simp_all
  have w: "0 < gridWidth hm"
    using createHeatmap_full(2,3)[OF hm full] by simp
  from full_trace_column_sum_bound[OF hm full short w] w show ?thesis
    by (simp add: hm)
qed

lemma peak_example:
  "calculatePeakDensity [[0, 1], [0, 0, 1]] (zero_grid 2 3) (zero_grid 2 3) 3 3 2
     = Inr ([[2, 1, 0], [0, 1, 1]], [[2, 1, 0], [0, 1, 1]])"
  by code_simp

lemma peak_example2:
  "calculatePeakDensity [[0, 1, 0, 1]] (zero_grid 2 2) (zero_grid 2 2) 4 2 2
     = Inr ([[0, 0], [1, 1]], [[0, 0], [2, 2]])"
  by code_simp

theorem horizontal_dominates_vertical_witness:
  "\<not> isl (createHeatmap [[0, 1], [0, 0, 1]] ''linear'' ''full'' 1)
   \<and> 1 < gridHeight (projr (createHeatmap [[0, 1], [0, 0, 1]] ''linear'' ''full'' 1))
   \<and> 1 < gridWidth (projr (createHeatmap [[0, 1], [0, 0, 1]] ''linear'' ''full'' 1))
   \<and> rawVerticalDensity (projr (createHeatmap [[0, 1], [0, 0, 1]] ''linear'' ''full'' 1)) ! 1 ! 1
       \<le> rawHorizontalDensity (projr (createHeatmap [[0, 1], [0, 0, 1]] ''linear'' ''full'' 1)) ! 1 ! 1"
proof -
  have "\<exists>hm. createHeatmap [[0, 1], [0, 0, 1]] ''linear'' ''full'' 1 = Inr hm"
    by (rule createHeatmap_full_total) auto
  then obtain hm where hm: "createHeatmap [[0, 1], [0, 0, 1]] ''linear'' ''full'' 1 = Inr hm"
    by blast
  have full: "''full'' \<noteq> ''peak''" by simp
  have dims: "gridHeight hm = 2" "gridWidth hm = 3"
    using createHeatmap_full(2,3,4)[OF hm full] by simp_all
  from horizontal_dominates_vertical[OF hm] dims show ?thesis
    by (simp add: hm)
qed

text \<open>
  In peak-trajectory mode \<open>createHeatmap\<close> returns a heatmap for all runs whose values
  do not exceed the target.
\<close>

lemma peak_visit_below:
  assumes "\<forall>p \<in> set (fst peaks). p < int h" "snd iv < int h"
  shows "\<forall>p \<in> set (fst (peak_visit ml w iv peaks)). p < int h"
proof -
  obtain index v where iv: "iv = (index, v)" by (cases iv)
  obtain pv pc where p: "peaks = (pv, pc)" by (cases peaks)
  show ?thesis
  proof (cases "time_bin index w ml")
    case None
    with assms show ?thesis by (simp add: peak_visit_def iv p)
  next
    case (Some x)
    show ?thesis
    proof (cases "x < length pv")
      case True
      then have "pv ! x \<in> set pv" by simp
      with assms p iv have "max (pv ! x) v < int h" by simp
      with assms(1) p have "\<forall>q \<in> insert (max (pv ! x) v) (set pv). q < int h" by simp
      with set_update_subset_insert[of pv x "max (pv ! x) v"] Some show ?thesis
        by (auto simp: peak_visit_def iv p)
    next
      case False
      with assms(1) Some show ?thesis
        by (simp add: peak_visit_def iv p list_update_beyond)
    qed
  qed
qed

lemma fold_peak_visit_below:
  assumes "\<forall>p \<in> set (fst peaks). p < int h" "\<forall>iv \<in> set items. snd iv < int h"
  shows "\<forall>p \<in> set (fst (fold (peak_visit ml w) items peaks)). p < int h"
  using assms
proof (induction items arbitrary: peaks)
  case Nil
  then show ?case by simp
next
  case (Cons a items)
  from Cons.prems have "\<forall>p \<in> set (fst (peak_visit ml w a peaks)). p < int h"
    by (intro peak_visit_below) simp_all
  from Cons.IH[OF this] Cons.prems(2) show ?case by simp
qed

lemma forEach_peak_mark_total:
  assumes "\<forall>xp \<in> set items. snd xp < int h"
  shows "\<exists>d. forEach (peak_mark h pc) items dens = Inr d"
  using assms
proof (induction items arbitrary: dens)
  case Nil
  then show ?case by simp
next
  case (Cons a items)
  from Cons.prems have "\<exists>t. peak_mark h pc a dens = Inr t"
    by (cases a; cases dens) (auto simp: peak_mark_def)
  then obtain t where "peak_mark h pc a dens = Inr t" by blast
  with Cons.IH[of t] Cons.prems show ?case by simp
qed

lemma peak_run_total:
  assumes "\<forall>v \<in> set run. v < int h"
  shows "\<exists>d. peak_run ml w h run dens = Inr d"
proof -
  obtain pv pc where f: "fold (peak_visit ml w) (enumerate 0 run) (replicate w (- 1), replicate w 0) = (pv, pc)"
    by (cases "fold (peak_visit ml w) (enumerate 0 run) (replicate w (- 1), replicate w 0)")
  from assms have items: "\<forall>iv \<in> set (enumerate 0 run). snd iv < int h"
    by (auto simp: in_set_enumerate_eq)
  have "\<forall>p \<in> set (fst (replicate w (- 1) :: int list, replicate w (0::nat))). p < int h"
    by simp
  from fold_peak_visit_below[OF this items, of ml w] f
  have "\<forall>p \<in> set pv. p < int h" by simp
  then have "\<forall>xp \<in> set (enumerate 0 pv). snd xp < int h"
    by (auto simp: in_set_enumerate_eq)
  from forEach_peak_mark_total[OF this, of pc dens] f show ?thesis
    by (simp add: peak_run_def)
qed

lemma calculatePeakDensity_total:
  assumes "\<forall>run \<in> set runs. \<forall>v \<in> set run. v < int h"
  shows "\<exists>d. calculatePeakDensity runs vert horiz ml w h = Inr d"
proof -
  have "\<exists>d. forEach (peak_run ml w h) runs dens = Inr d" for dens
    using assms
  proof (induction runs arbitrary: dens)
    case Nil
    then show ?case by simp
  next
    case (Cons run runs)
    from Cons.prems peak_run_total[of run h ml w dens]
    obtain t where "peak_run ml w h run dens = Inr t" by auto
    with Cons.IH[of t] Cons.prems show ?case by simp
  qed
  then show ?thesis by (simp add: calculatePeakDensity_def)
qed

lemma createHeatmap_peak_total:
  assumes "\<forall>run \<in> set runs. \<forall>v \<in> set run. v \<le> maxValue" and "0 \<le> maxValue"
  shows "\<exists>hm. createHeatmap runs colorScaling ''peak'' maxValue = Inr hm"
proof (cases "runs = []")
  case True
  then show ?thesis by (simp add: createHeatmap_def)
next
  case False
  define ml where "ml = Max (set (map length runs))"
  define w where "w = min ml 1000"
  define h where "h = nat (maxValue + 1)"
  from assms have "\<forall>run \<in> set runs. \<forall>v \<in> set run. v < int h"
    by (auto simp: h_def)
  from calculatePeakDensity_total[OF this, of "zero_grid h w" "zero_grid h w" ml w]
  obtain d where "calculatePeakDensity runs (zero_grid h w) (zero_grid h w) ml w h = Inr d"
    by blast
  with False assms(2) show ?thesis
    by (cases d) (simp add: createHeatmap_def Let_def ml_def w_def h_def)
qed

text \<open>
  Without the bound on the run lengths a run marks each counter value of a column at most
  once, so a column sum is at most the number of runs times the grid height.
\<close>

lemma merge_bins_column_height:
  assumes "x < w"
  shows "column_sum (fst (merge_bins w h bc (vert, horiz))) x \<le> (\<Sum>y = 0..<h. vert ! y ! x) + h"
proof -
  have "column_sum (fst (merge_bins w h bc (vert, horiz))) x
          = (\<Sum>y = 0..<h. if bc ! y ! x > 0 then vert ! y ! x + 1 else vert ! y ! x)"
    using assms by (auto simp: column_sum_nth merge_bins_def intro!: sum.cong)
  also have "\<dots> \<le> (\<Sum>y = 0..<h. vert ! y ! x + 1)"
    by (rule sum_mono) simp
  also have "\<dots> = (\<Sum>y = 0..<h. vert ! y ! x) + h"
    by (simp only: sum.distrib sum_constant card_atLeastLessThan) simp
  finally show ?thesis .
qed

lemma full_run_column_height:
  assumes "full_run ml w h run dens = Inr dens'" "dens_ok h w dens" "x < w"
  shows "column_sum (fst dens') x \<le> column_sum (fst dens) x + h"
proof -
  obtain vert horiz where d: "dens = (vert, horiz)" by (cases dens)
  from assms(1) obtain bc where res: "dens' = merge_bins w h bc dens"
    by (auto simp: full_run_def split: sum.splits)
  from assms(2) d have lv: "length vert = h" by (simp add: dens_ok_def shaped_def)
  from merge_bins_column_height[OF assms(3), of h bc vert horiz] show ?thesis
    by (simp add: res d column_sum_nth lv)
qed

lemma calculateFullDensity_column_height:
  assumes "forEach (full_run ml w h) runs dens = Inr dens'" "dens_ok h w dens" "x < w"
  shows "column_sum (fst dens') x \<le> column_sum (fst dens) x + length runs * h"
  using assms(1,2)
proof (induction runs arbitrary: dens)
  case Nil
  then show ?case by simp
next
  case (Cons run runs)
  from Cons.prems(1) obtain t where t: "full_run ml w h run dens = Inr t"
    and rest: "forEach (full_run ml w h) runs t = Inr dens'"
    by (auto split: sum.splits)
  from full_run_ok[OF t Cons.prems(2)] have ok: "dens_ok h w t" .
  from Cons.IH[OF rest ok] full_run_column_height[OF t Cons.prems(2) assms(3)]
  show ?case by simp
qed

lemma full_trace_column_sum_general:
  assumes "createHeatmap runs colorScaling visualizationType maxValue = Inr hm"
    and "visualizationType \<noteq> ''peak''" and "x < gridWidth hm"
  shows "column_sum (rawVerticalDensity hm) x \<le> length runs * gridHeight hm"
proof -
  from assms(1,3) have ne: "runs \<noteq> []"
    by (auto simp: createHeatmap_def)
  note full = createHeatmap_full[OF assms(1,2) ne]
  from calculateFullDensity_column_height[OF full(1)[unfolded calculateFullDensity_def] dens_ok_zero assms(3)]
  have "column_sum (rawVerticalDensity hm) x
          \<le> column_sum (zero_grid (gridHeight hm) (gridWidth hm)) x + length runs * gridHeight hm"
    by simp
  also have "column_sum (zero_grid (gridHeight hm) (gridWidth hm)) x = 0"
    using assms(3) by (simp add: column_sum_def zero_grid_def)
  finally show ?thesis by simp
qed

section \<open>Properties of the scaling\<close>

lemma cells_nth: "y < h \<Longrightarrow> x < w \<Longrightarrow> cells f g w h ! y ! x = f (g ! y ! x)"
  by (simp add: cells_def)

lemma zero_cells_nth: "y < h \<Longrightarrow> x < w \<Longrightarrow> zero_cells w h ! y ! x = 0"
  by (simp add: zero_cells_def)

lemma percentileMap_zero: "get_or_zero (percentileMap u) 0 = 0"
  by (simp add: get_or_zero_def percentileMap_def)

lemma applyColorScaling_zero_cell:
  assumes "y < h" "x < w" "g ! y ! x = 0"
  shows "applyColorScaling g cs w h ! y ! x = 0"
  using assms
  by (simp add: applyColorScaling_def Let_def cells_nth zero_cells_nth percentileMap_zero)

lemma applyColorScaling_all_zero:
  assumes "\<forall>row \<in> set g. \<forall>v \<in> set row. v = 0"
  shows "applyColorScaling g cs w h = zero_cells w h"
proof -
  from assms have "filter (\<lambda>d. d > 0) (concat g) = []"
    by (auto simp: filter_empty_conv)
  then show ?thesis by (simp add: applyColorScaling_def)
qed

text \<open>
  When the grid has a non-zero cell, the divisors of the linear, square-root and logarithmic
  scalings are positive, so the quotients of the model are those of the code.
\<close>

lemma flat_max_positive:
  assumes "filter (\<lambda>d. d > 0) (concat g) \<noteq> []"
  shows "0 < Max (set (filter (\<lambda>d. d > (0::nat)) (concat g)))"
proof -
  from assms obtain v where "v \<in> set (filter (\<lambda>d. d > 0) (concat g))"
    by (meson last_in_set)
  moreover then have "0 < v" by simp
  ultimately show ?thesis
    by (meson List.finite_set Max_ge less_le_trans)
qed

lemma scaling_denominators_positive:
  assumes "filter (\<lambda>d. d > 0) (concat g) \<noteq> []"
  shows "0 < real (Max (set (filter (\<lambda>d. d > 0) (concat g))))"
    and "0 < sqrt (real (Max (set (filter (\<lambda>d. d > 0) (concat g)))))"
    and "0 < ln (real (Max (set (filter (\<lambda>d. d > 0) (concat g)))) + 1)"
  using flat_max_positive[OF assms] by (simp_all add: ln_gt_zero)

text \<open>
  C8 (zero stays zero). Under every scaling kind (the strings \<open>sqrt\<close>, \<open>log\<close>,
  \<open>percentile\<close>, and \<open>linear\<close> or anything else), a cell of the grid whose raw value
  is 0 is normalised to 0; and when the raw grid has no non-zero cell the function returns
  the all-zero grid before it divides by anything.
\<close>

theorem zero_is_normalized_to_zero:
  "(\<forall>y < h. \<forall>x < w. g ! y ! x = 0 \<longrightarrow> applyColorScaling g colorScaling w h ! y ! x = 0)
   \<and> ((\<forall>row \<in> set g. \<forall>v \<in> set row. v = 0) \<longrightarrow>
        applyColorScaling g colorScaling w h = zero_cells w h)"
proof (intro conjI allI impI)
  fix y x assume "y < h" "x < w" "g ! y ! x = 0"
  then show "applyColorScaling g colorScaling w h ! y ! x = 0"
    by (rule applyColorScaling_zero_cell)
next
  assume "\<forall>row \<in> set g. \<forall>v \<in> set row. v = 0"
  then show "applyColorScaling g colorScaling w h = zero_cells w h"
    by (rule applyColorScaling_all_zero)
qed

text \<open>The opacity channel treats zero the same way.\<close>

lemma normalizeAlphaDensity_zero_cell:
  assumes "y < h" "x < w" "g ! y ! x = 0"
  shows "normalizeAlphaDensity g w h ! y ! x = 0"
proof (cases "concat g \<noteq> [] \<and> Max (set (concat g)) > 0")
  case True
  then have "normalizeAlphaDensity g w h
               = cells (\<lambda>v. sqrt (real v / real (Max (set (concat g))))) g w h"
    by (simp add: normalizeAlphaDensity_def Let_def)
  with assms show ?thesis by (simp add: cells_nth)
next
  case False
  then have "normalizeAlphaDensity g w h = zero_cells w h"
    by (auto simp: normalizeAlphaDensity_def Let_def)
  with assms show ?thesis by (simp add: zero_cells_nth)
qed

lemma normalizeAlphaDensity_all_zero:
  assumes "\<forall>row \<in> set g. \<forall>v \<in> set row. v = 0"
  shows "normalizeAlphaDensity g w h = zero_cells w h"
proof (cases "concat g = []")
  case True
  then show ?thesis by (simp add: normalizeAlphaDensity_def)
next
  case False
  from assms have "set (concat g) \<subseteq> {0}" by auto
  with False have "set (concat g) = {0}"
    by (metis set_empty subset_singletonD)
  then show ?thesis by (simp add: normalizeAlphaDensity_def)
qed

theorem zero_is_normalized_to_zero_witness:
  "applyColorScaling [[2, 1, 0], [0, 1, 1]] ''sqrt'' 3 2 ! 0 ! 2 = 0
   \<and> applyColorScaling [[0, 0], [0, 0]] ''log'' 2 2 = zero_cells 2 2"
proof -
  note t = zero_is_normalized_to_zero[of 2 3 "[[2, 1, 0], [0, 1, 1]]" "''sqrt''"]
  note u = zero_is_normalized_to_zero[of 2 2 "[[0, 0], [0, 0]]" "''log''"]
  have "applyColorScaling [[2, 1, 0], [0, 1, 1]] ''sqrt'' 3 2 ! 0 ! 2 = 0"
    using t[THEN conjunct1, rule_format, of 0 2] by simp
  moreover have "applyColorScaling [[0, 0], [0, 0]] ''log'' 2 2 = zero_cells 2 2"
    using u[THEN conjunct2] by simp
  ultimately show ?thesis by (rule conjI)
qed

subsection \<open>Percentile scaling\<close>

text \<open>
  The map built by \<open>uniqueValues.forEach\<close>: a value that is not in the list keeps its
  old entry, and the value at position \<open>i\<close> of a duplicate-free list gets the entry made
  from \<open>i\<close>.
\<close>

lemma fold_rank_notin:
  "v \<notin> set xs \<Longrightarrow>
   fold (\<lambda>iv m. case iv of (idx, val) \<Rightarrow> m(val \<mapsto> F idx)) (enumerate k xs) m v = m v"
  by (induction xs arbitrary: k m) auto

lemma fold_rank_nth:
  "distinct xs \<Longrightarrow> i < length xs \<Longrightarrow>
   fold (\<lambda>iv m. case iv of (idx, val) \<Rightarrow> m(val \<mapsto> F idx)) (enumerate k xs) m (xs ! i)
     = Some (F (k + i))"
proof (induction xs arbitrary: k m i)
  case Nil
  then show ?case by simp
next
  case (Cons x xs)
  show ?case
  proof (cases i)
    case 0
    from Cons.prems have "x \<notin> set xs" by simp
    from fold_rank_notin[OF this, of F "Suc k" "m(x \<mapsto> F k)"]
    have "fold (\<lambda>iv m. case iv of (idx, val) \<Rightarrow> m(val \<mapsto> F idx))
            (enumerate (Suc k) xs) (m(x \<mapsto> F k)) x = Some (F k)"
      by simp
    with 0 show ?thesis
      by (simp del: fun_upd_apply)
  next
    case (Suc j)
    with Cons.prems Cons.IH[of j "Suc k" "m(x \<mapsto> F k)"] show ?thesis by simp
  qed
qed

lemma percentileMap_nth:
  assumes "distinct u" "i < length u" "u ! i \<noteq> 0"
  shows "percentileMap u (u ! i) = Some (rank_value i (length u))"
  using assms fold_rank_nth[OF assms(1,2), of "\<lambda>idx. rank_value idx (length u)" 0 Map.empty]
  by (simp add: percentileMap_def)

lemma get_or_zero_nth:
  assumes "distinct u" "i < length u" "u ! i \<noteq> 0"
  shows "get_or_zero (percentileMap u) (u ! i)
           = (if length u - 1 = 0 then 0 else real i / real (length u - 1))"
  by (simp add: get_or_zero_def percentileMap_nth[OF assms] rank_value_def)

lemma percentile_strict:
  assumes "sorted u" "distinct u" "a \<in> set u" "b \<in> set u" "a < b" "0 < a"
  shows "get_or_zero (percentileMap u) a < get_or_zero (percentileMap u) b"
proof -
  from assms(3,4) obtain i j where i: "i < length u" "u ! i = a" and j: "j < length u" "u ! j = b"
    by (auto simp: in_set_conv_nth)
  have "i < j"
  proof (rule ccontr)
    assume "\<not> i < j"
    then have "j \<le> i" by simp
    from sorted_nth_mono[OF assms(1) this i(1)] i(2) j(2) assms(5) show False by simp
  qed
  with j(1) have n: "length u - 1 \<noteq> 0" "0 < real (length u - 1)" by simp_all
  from i j assms(5,6) have nz: "u ! i \<noteq> 0" "u ! j \<noteq> 0" by simp_all
  have "real i / real (length u - 1) < real j / real (length u - 1)"
    using \<open>i < j\<close> n(2) by (simp add: divide_strict_right_mono)
  then show ?thesis
    using get_or_zero_nth[OF assms(2) i(1) nz(1)] get_or_zero_nth[OF assms(2) j(1) nz(2)] n(1) i(2) j(2)
    by simp
qed

lemma percentile_nonneg:
  assumes "distinct u" "a \<in> set u \<or> a = 0"
  shows "0 \<le> get_or_zero (percentileMap u) a"
proof (cases "a = 0")
  case True
  then show ?thesis by (simp add: get_or_zero_def percentileMap_def)
next
  case False
  with assms(2) obtain i where i: "i < length u" "u ! i = a"
    by (auto simp: in_set_conv_nth)
  with False have "u ! i \<noteq> 0" by simp
  from get_or_zero_nth[OF assms(1) i(1) this] i(2) show ?thesis by simp
qed

lemma applyColorScaling_percentile_cell:
  assumes "y < h" "x < w"
  shows "applyColorScaling g ''percentile'' w h ! y ! x
           = (if filter (\<lambda>d. d > 0) (concat g) = [] then 0
              else get_or_zero (percentileMap (sort (remdups (filter (\<lambda>d. d > 0) (concat g)))))
                     (g ! y ! x))"
  using assms by (simp add: applyColorScaling_def Let_def cells_nth zero_cells_nth)

lemma cell_in_flat:
  assumes "shaped h w g" "y < h" "x < w" "0 < g ! y ! x"
  shows "g ! y ! x \<in> set (sort (remdups (filter (\<lambda>d. d > 0) (concat g))))"
proof -
  from assms(1,2) have "y < length g" "length (g ! y) = w"
    by (simp_all add: shaped_def)
  with assms(3) have "g ! y ! x \<in> set (g ! y)" "g ! y \<in> set g" by simp_all
  with assms(4) show ?thesis by auto
qed

text \<open>
  C4 as amended (percentile scaling and rank). On a grid of the shape \<open>createHeatmap\<close>
  builds, for any two cells: when both raw values are non-zero and strictly ordered, the
  normalised values are strictly ordered the same way; the order of two raw values is never
  reversed; equal raw values get equal normalised values; and raw 0 is normalised to 0.
\<close>

theorem percentile_preserves_rank_of_nonzero_cells:
  assumes "shaped h w g" "y1 < h" "x1 < w" "y2 < h" "x2 < w"
  shows "(0 < g ! y1 ! x1 \<and> g ! y1 ! x1 < g ! y2 ! x2 \<longrightarrow>
            applyColorScaling g ''percentile'' w h ! y1 ! x1
              < applyColorScaling g ''percentile'' w h ! y2 ! x2)
       \<and> (g ! y1 ! x1 \<le> g ! y2 ! x2 \<longrightarrow>
            applyColorScaling g ''percentile'' w h ! y1 ! x1
              \<le> applyColorScaling g ''percentile'' w h ! y2 ! x2)
       \<and> (g ! y1 ! x1 = g ! y2 ! x2 \<longrightarrow>
            applyColorScaling g ''percentile'' w h ! y1 ! x1
              = applyColorScaling g ''percentile'' w h ! y2 ! x2)
       \<and> (g ! y1 ! x1 = 0 \<longrightarrow> applyColorScaling g ''percentile'' w h ! y1 ! x1 = 0)"
proof -
  let ?flat = "filter (\<lambda>d. d > 0) (concat g)"
  let ?u = "sort (remdups ?flat)"
  let ?S = "applyColorScaling g ''percentile'' w h"
  let ?a = "g ! y1 ! x1" and ?b = "g ! y2 ! x2"
  have u: "sorted ?u" "distinct ?u" by simp_all
  have c1: "?S ! y1 ! x1 = (if ?flat = [] then 0 else get_or_zero (percentileMap ?u) ?a)"
    and c2: "?S ! y2 ! x2 = (if ?flat = [] then 0 else get_or_zero (percentileMap ?u) ?b)"
    using assms by (simp_all only: applyColorScaling_percentile_cell)
  have mem: "0 < g ! y ! x \<Longrightarrow> g ! y ! x \<in> set ?u" if "y < h" "x < w" for y x
    using cell_in_flat[OF assms(1) that] .
  have strict: "?S ! y1 ! x1 < ?S ! y2 ! x2" if "0 < ?a" "?a < ?b"
  proof -
    from that have a: "?a \<in> set ?u" and b: "?b \<in> set ?u"
      using mem[OF assms(2,3)] mem[OF assms(4,5)] by simp_all
    from a have "?a \<in> set ?flat" by simp
    from length_pos_if_in_set[OF this] have "?flat \<noteq> []" by fastforce
    with percentile_strict[OF u a b that(2,1)] show ?thesis
      by (simp only: c1 c2 if_False)
  qed
  have zero: "?S ! y1 ! x1 = 0" if "?a = 0"
    using that assms(2,3) by (simp add: applyColorScaling_zero_cell)
  have nonneg: "0 \<le> ?S ! y2 ! x2"
  proof (cases "?flat = []")
    case True
    then show ?thesis by (simp add: c2)
  next
    case False
    have "?b \<in> set ?u \<or> ?b = 0" using mem[OF assms(4,5)] by auto
    from percentile_nonneg[OF u(2) this] False show ?thesis
      by (simp only: c2 if_False)
  qed
  have weak: "?S ! y1 ! x1 \<le> ?S ! y2 ! x2" if "?a \<le> ?b"
  proof (cases "?a = 0")
    case True
    with zero nonneg show ?thesis by simp
  next
    case False
    show ?thesis
    proof (cases "?a = ?b")
      case True
      then show ?thesis by (simp only: c1 c2)
    next
      case neq: False
      with that \<open>?a \<noteq> 0\<close> strict show ?thesis by simp
    qed
  qed
  have eq: "?S ! y1 ! x1 = ?S ! y2 ! x2" if "?a = ?b"
    using that by (simp only: c1 c2)
  from strict weak eq zero show ?thesis by blast
qed


text \<open>
  With a single distinct non-zero value the rank is \<open>0 / 0\<close>, and
  \<open>|| 0\<close> turns it into 0.
\<close>

lemma percentile_single_value: "get_or_zero (percentileMap [v]) a = 0"
  by (simp add: percentileMap_def get_or_zero_def rank_value_def)

text \<open>
  The two completed runs \<open>[0,1]\<close> and \<open>[0,0,1]\<close> to target 1: their raw grid and
  the percentile values of two of its cells.
\<close>

lemma createHeatmap_color:
  assumes "createHeatmap runs cs vt maxValue = Inr hm" "runs \<noteq> []"
  shows "colorDensity hm
           = applyColorScaling (rawVerticalDensity hm) cs (gridWidth hm) (gridHeight hm)"
  using assms
  by (auto simp: createHeatmap_def Let_def split: if_splits sum.splits)

lemma two_runs_density:
  "calculateFullDensity [[0, 1], [0, 0, 1]] (zero_grid 2 3) (zero_grid 2 3) 3 3 2
     = Inr ([[2, 1, 0], [0, 1, 1]], [[2, 1, 0], [0, 1, 1]])"
  by code_simp

lemma two_runs_unique: "sort (remdups (filter (\<lambda>d. d > 0) (concat [[2, 1, 0], [0, 1, 1 :: nat]]))) = [1, 2]"
  by code_simp

lemma two_runs_percentile:
  "applyColorScaling [[2, 1, 0], [0, 1, 1]] ''percentile'' 3 2 ! 0 ! 1 = 0"
  "applyColorScaling [[2, 1, 0], [0, 1, 1]] ''percentile'' 3 2 ! 0 ! 2 = 0"
proof -
  have "get_or_zero (percentileMap [1, 2]) 1 = 0"
    by (simp add: percentileMap_def get_or_zero_def rank_value_def)
  then show "applyColorScaling [[2, 1, 0], [0, 1, 1]] ''percentile'' 3 2 ! 0 ! 1 = 0"
    by (simp add: applyColorScaling_percentile_cell two_runs_unique)
  show "applyColorScaling [[2, 1, 0], [0, 1, 1]] ''percentile'' 3 2 ! 0 ! 2 = 0"
    by (rule applyColorScaling_zero_cell) simp_all
qed

text \<open>
  C4 as stated fails between a zero cell and a cell with the smallest non-zero value. For
  the runs \<open>[0,1]\<close> and \<open>[0,0,1]\<close> the raw grid is \<open>[[2,1,0],[0,1,1]]\<close>; the distinct
  non-zero values are 1 and 2, with ranks \<open>0/1\<close> and \<open>1/1\<close>. The cell with raw value 0
  and the cell with raw value 1 are strictly ordered, and both are normalised to 0.
\<close>

theorem percentile_merges_zero_and_smallest_counterexample:
  "\<not> isl (createHeatmap [[0, 1], [0, 0, 1]] ''percentile'' ''full'' 1)
   \<and> rawVerticalDensity (projr (createHeatmap [[0, 1], [0, 0, 1]] ''percentile'' ''full'' 1)) ! 0 ! 2
       < rawVerticalDensity (projr (createHeatmap [[0, 1], [0, 0, 1]] ''percentile'' ''full'' 1)) ! 0 ! 1
   \<and> \<not> colorDensity (projr (createHeatmap [[0, 1], [0, 0, 1]] ''percentile'' ''full'' 1)) ! 0 ! 2
         < colorDensity (projr (createHeatmap [[0, 1], [0, 0, 1]] ''percentile'' ''full'' 1)) ! 0 ! 1"
proof -
  have "\<exists>hm. createHeatmap [[0, 1], [0, 0, 1]] ''percentile'' ''full'' 1 = Inr hm"
    by (rule createHeatmap_full_total) auto
  then obtain hm where hm: "createHeatmap [[0, 1], [0, 0, 1]] ''percentile'' ''full'' 1 = Inr hm"
    by blast
  have full: "''full'' \<noteq> ''peak''" and ne: "[[0, 1], [0, 0, 1 :: int]] \<noteq> []" by simp_all
  note f = createHeatmap_full[OF hm full ne]
  have dims: "maxLength hm = 3" "gridWidth hm = 3" "gridHeight hm = 2"
    using f(2,3,4) by simp_all
  from f(1)[unfolded dims two_runs_density]
  have raw: "rawVerticalDensity hm = [[2, 1, 0], [0, 1, 1]]" by simp
  have col: "colorDensity hm = applyColorScaling [[2, 1, 0], [0, 1, 1]] ''percentile'' 3 2"
    using createHeatmap_color[OF hm ne] by (simp only: raw dims)
  have r: "rawVerticalDensity hm ! 0 ! 2 < rawVerticalDensity hm ! 0 ! 1"
    by (simp add: raw)
  have c: "\<not> colorDensity hm ! 0 ! 2 < colorDensity hm ! 0 ! 1"
    unfolding col two_runs_percentile by simp
  from r c show ?thesis
    unfolding hm by simp
qed

theorem percentile_preserves_rank_of_nonzero_cells_witness:
  "applyColorScaling [[2, 1, 0], [0, 1, 1]] ''percentile'' 3 2 ! 0 ! 1
     < applyColorScaling [[2, 1, 0], [0, 1, 1]] ''percentile'' 3 2 ! 0 ! 0
   \<and> applyColorScaling [[2, 1, 0], [0, 1, 1]] ''percentile'' 3 2 ! 0 ! 2
     \<le> applyColorScaling [[2, 1, 0], [0, 1, 1]] ''percentile'' 3 2 ! 0 ! 1
   \<and> applyColorScaling [[2, 1, 0], [0, 1, 1]] ''percentile'' 3 2 ! 0 ! 1
     = applyColorScaling [[2, 1, 0], [0, 1, 1]] ''percentile'' 3 2 ! 1 ! 1
   \<and> applyColorScaling [[2, 1, 0], [0, 1, 1]] ''percentile'' 3 2 ! 0 ! 2 = 0"
proof -
  have sh: "shaped 2 3 [[2, 1, 0], [0, 1, 1 :: nat]]"
    by (simp add: shaped_def)
  have i: "(0::nat) < 2" "(1::nat) < 2" "(0::nat) < 3" "(1::nat) < 3" "(2::nat) < 3"
    by simp_all
  from percentile_preserves_rank_of_nonzero_cells[OF sh i(1) i(4) i(1) i(3)]
  have a: "applyColorScaling [[2, 1, 0], [0, 1, 1]] ''percentile'' 3 2 ! 0 ! 1
     < applyColorScaling [[2, 1, 0], [0, 1, 1]] ''percentile'' 3 2 ! 0 ! 0"
    by simp
  from percentile_preserves_rank_of_nonzero_cells[OF sh i(1) i(5) i(1) i(4)]
  have b: "applyColorScaling [[2, 1, 0], [0, 1, 1]] ''percentile'' 3 2 ! 0 ! 2
     \<le> applyColorScaling [[2, 1, 0], [0, 1, 1]] ''percentile'' 3 2 ! 0 ! 1"
    and d: "applyColorScaling [[2, 1, 0], [0, 1, 1]] ''percentile'' 3 2 ! 0 ! 2 = 0"
    by simp_all
  from percentile_preserves_rank_of_nonzero_cells[OF sh i(1) i(4) i(2) i(4)]
  have c: "applyColorScaling [[2, 1, 0], [0, 1, 1]] ''percentile'' 3 2 ! 0 ! 1
     = applyColorScaling [[2, 1, 0], [0, 1, 1]] ''percentile'' 3 2 ! 1 ! 1"
    by simp
  from a b c d show ?thesis by (intro conjI)
qed

end
